theory Spec2Isabelle
  imports Complex_Main "HOL-Library.Multiset"
begin

section \<open>TimeSplit API: the data model\<close>

text \<open>
  The service of \<^verbatim>\<open>server.js\<close> stores game sessions and their splits in two PostgreSQL
  tables. Integers of the request are modelled by \<^typ>\<open>int\<close>, scores (JavaScript numbers,
  \<^verbatim>\<open>numeric\<close> columns) by finite rationals, strings by lists of code units, and a
  \<^verbatim>\<open>timestamptz\<close> by the rational number of seconds since the epoch.
\<close>

type_synonym timestamp = rat

text \<open>A row of table \<^verbatim>\<open>sessions\<close> (primary key \<^verbatim>\<open>id\<close>).\<close>

record session_row =
  s_id :: string
  s_player :: string
  s_mode :: string
  started_at :: timestamp
  duration_ms :: int
  total_score :: rat
  created_at :: timestamp
  updated_at :: timestamp

text \<open>A row of table \<^verbatim>\<open>splits\<close> (primary key \<^verbatim>\<open>(session_id, t_ms)\<close>).\<close>

record split_row =
  session_id :: string
  t_ms :: int
  lap :: int
  score :: rat
  note_txt :: "string option"

text \<open>The database: both tables, each as the list of its rows in physical order.\<close>

record db =
  sessions :: "session_row list"
  splits :: "split_row list"

text \<open>
  A client connection: the committed database, and the working copy of the transaction
  that is open on the connection, if there is one.
\<close>

record conn =
  committed :: db
  tx :: "db option"

datatype db_error =
    Invalid_Text
  | Out_Of_Range
  | Check_Violation
  | Foreign_Key_Violation
  | Statement_Failed

section \<open>Request bodies and their validation (zod)\<close>

text \<open>The body of a request after \<^verbatim>\<open>express.json\<close>: a parsed JSON value.\<close>

datatype json =
    JNull
  | JBool bool
  | JNum rat
  | JStr string
  | JArr "json list"
  | JObj "(string \<times> json) list"

text \<open>The output of \<^verbatim>\<open>SplitSchema\<close> and of \<^verbatim>\<open>SessionUpsertSchema\<close>.\<close>

record split =
  sp_t :: int
  sp_lap :: int
  sp_score :: rat
  sp_note :: "string option"

record payload =
  p_id :: string
  p_player :: string
  p_mode :: string
  startedAt :: int
  durationMs :: int
  totalScore :: rat
  p_splits :: "split list"

text \<open>
  A property of a JSON object; \<open>None\<close> is JavaScript's \<^verbatim>\<open>undefined\<close>. Each schema below
  takes the property and returns the parsed value, or \<open>None\<close> when zod reports an issue.
\<close>

definition get_prop :: "(string \<times> json) list \<Rightarrow> string \<Rightarrow> json option" where
  "get_prop obj k = map_of obj k"

text \<open>\<^verbatim>\<open>z.number().int().nonnegative()\<close>\<close>

definition z_int_nonnegative :: "json option \<Rightarrow> int option" where
  "z_int_nonnegative v =
     (case v of
        Some (JNum q) \<Rightarrow> if of_int \<lfloor>q\<rfloor> = q \<and> 0 \<le> q then Some \<lfloor>q\<rfloor> else None
      | _ \<Rightarrow> None)"

text \<open>\<^verbatim>\<open>z.number()\<close>\<close>

definition z_number :: "json option \<Rightarrow> rat option" where
  "z_number v = (case v of Some (JNum q) \<Rightarrow> Some q | _ \<Rightarrow> None)"

text \<open>\<^verbatim>\<open>z.string().min(n)\<close>\<close>

definition z_string_min :: "nat \<Rightarrow> json option \<Rightarrow> string option" where
  "z_string_min n v =
     (case v of
        Some (JStr s) \<Rightarrow> if n \<le> length s then Some s else None
      | _ \<Rightarrow> None)"

text \<open>\<^verbatim>\<open>z.enum(["carreras","futbol"])\<close>\<close>

definition z_enum_mode :: "json option \<Rightarrow> string option" where
  "z_enum_mode v =
     (case v of
        Some (JStr s) \<Rightarrow> if s = ''carreras'' \<or> s = ''futbol'' then Some s else None
      | _ \<Rightarrow> None)"

text \<open>
  \<^verbatim>\<open>z.string().nullable().optional()\<close>, followed by the handler's \<^verbatim>\<open>sp.note ?? null\<close>:
  an absent note and a \<^verbatim>\<open>null\<close> note both become SQL \<^verbatim>\<open>NULL\<close> (the inner \<open>None\<close>).
\<close>

definition z_note :: "json option \<Rightarrow> string option option" where
  "z_note v =
     (case v of
        None \<Rightarrow> Some None
      | Some JNull \<Rightarrow> Some None
      | Some (JStr s) \<Rightarrow> Some (Some s)
      | _ \<Rightarrow> None)"

definition SplitSchema :: "json \<Rightarrow> split option" where
  "SplitSchema v =
     (case v of
        JObj fs \<Rightarrow>
          (case (z_int_nonnegative (get_prop fs ''t''), z_int_nonnegative (get_prop fs ''lap''),
                 z_number (get_prop fs ''score''), z_note (get_prop fs ''note'')) of
             (Some t, Some l, Some sc, Some n) \<Rightarrow>
               Some \<lparr>sp_t = t, sp_lap = l, sp_score = sc, sp_note = n\<rparr>
           | _ \<Rightarrow> None)
      | _ \<Rightarrow> None)"

text \<open>\<^verbatim>\<open>z.array(SplitSchema).max(200_000).optional().default([])\<close>\<close>

definition z_splits :: "json option \<Rightarrow> split list option" where
  "z_splits v =
     (case v of
        None \<Rightarrow> Some []
      | Some (JArr vs) \<Rightarrow>
          if length vs \<le> 200000 then those (map SplitSchema vs) else None
      | _ \<Rightarrow> None)"

text \<open>
  \<^verbatim>\<open>SessionUpsertSchema.safeParse\<close>: the parsed payload, or the names of the fields with an
  issue (the keys of \<^verbatim>\<open>flatten().fieldErrors\<close>; a body that is no object has a form-level
  issue and no field issue).
\<close>

definition issue :: "string \<Rightarrow> 'a option \<Rightarrow> string list" where
  "issue k v = (case v of None \<Rightarrow> [k] | Some _ \<Rightarrow> [])"

definition SessionUpsertSchema :: "json \<Rightarrow> string list + payload" where
  "SessionUpsertSchema body =
     (case body of
        JObj fs \<Rightarrow>
          (let i = z_string_min 3 (get_prop fs ''id'');
               pl = z_string_min 1 (get_prop fs ''player'');
               m = z_enum_mode (get_prop fs ''mode'');
               st = z_int_nonnegative (get_prop fs ''startedAt'');
               du = z_int_nonnegative (get_prop fs ''durationMs'');
               ts = z_number (get_prop fs ''totalScore'');
               sps = z_splits (get_prop fs ''splits'')
           in case (i, pl, m, st, du, ts, sps) of
                (Some i', Some pl', Some m', Some st', Some du', Some ts', Some sps') \<Rightarrow>
                  Inr \<lparr>p_id = i', p_player = pl', p_mode = m', startedAt = st',
                       durationMs = du', totalScore = ts', p_splits = sps'\<rparr>
              | _ \<Rightarrow>
                  Inl (issue ''id'' i @ issue ''player'' pl @ issue ''mode'' m
                       @ issue ''startedAt'' st @ issue ''durationMs'' du
                       @ issue ''totalScore'' ts @ issue ''splits'' sps))
      | _ \<Rightarrow> Inl [])"

section \<open>The storage statements\<close>

text \<open>The range of a PostgreSQL \<^verbatim>\<open>int\<close> column.\<close>

definition int4 :: "int \<Rightarrow> bool" where
  "int4 n \<longleftrightarrow> - 2147483648 \<le> n \<and> n \<le> 2147483647"

text \<open>
  A value of a \<^verbatim>\<open>text\<close> column or parameter: the engine refuses a string that holds the
  code unit 0.
\<close>

definition pg_text :: "string \<Rightarrow> bool" where
  "pg_text str \<longleftrightarrow> CHR 0x00 \<notin> set str"

text \<open>
  \<^verbatim>\<open>to_timestamp\<close> of a number of seconds; \<open>None\<close> when the engine refuses the number as
  out of the range of \<^verbatim>\<open>timestamptz\<close>, which runs from Julian day 0 to the end of the year
  294276 (days 2440588 before and 106762940 after the epoch, of 86400 seconds each).
\<close>

definition to_timestamp :: "rat \<Rightarrow> timestamp option" where
  "to_timestamp secs =
     (if - 210866803200 \<le> secs \<and> secs < 9224318016000 then Some secs else None)"

text \<open>The arbiters of the two \<^verbatim>\<open>ON CONFLICT\<close> clauses: is there a row with this key?\<close>

definition session_exists :: "db \<Rightarrow> string \<Rightarrow> bool" where
  "session_exists d i \<longleftrightarrow> (\<exists>r \<in> set (sessions d). s_id r = i)"

definition split_exists :: "db \<Rightarrow> string \<Rightarrow> int \<Rightarrow> bool" where
  "split_exists d sid t \<longleftrightarrow> (\<exists>r \<in> set (splits d). session_id r = sid \<and> t_ms r = t)"

text \<open>
  \<^verbatim>\<open>upsertQ\<close>: insert the header, or on a conflict on \<^verbatim>\<open>id\<close> update the six listed
  columns of the stored row. \<open>now\<close> is the value of \<^verbatim>\<open>now()\<close> in the transaction. The
  engine refuses the statement when a parameter does not fit its type (the three texts,
  the duration as \<^verbatim>\<open>int\<close>), when the start time is out of range, or when a \<^verbatim>\<open>CHECK\<close>
  fails.
\<close>

definition upsertQ :: "timestamp \<Rightarrow> payload \<Rightarrow> db \<Rightarrow> db_error + db" where
  "upsertQ now s d =
     (if \<not> pg_text (p_id s) \<or> \<not> pg_text (p_player s) \<or> \<not> pg_text (p_mode s)
        then Inl Invalid_Text
      else if \<not> int4 (durationMs s) then Inl Out_Of_Range
      else case to_timestamp (of_int (startedAt s) / 1000) of
        None \<Rightarrow> Inl Out_Of_Range
      | Some started \<Rightarrow>
          if \<not> (p_mode s = ''carreras'' \<or> p_mode s = ''futbol'') \<or> durationMs s < 0
            then Inl Check_Violation
          else if session_exists d (p_id s)
            then Inr (d\<lparr>sessions :=
                   map (\<lambda>r. if s_id r = p_id s
                            then r\<lparr>s_player := p_player s, s_mode := p_mode s,
                                   started_at := started,
                                   duration_ms := durationMs s, total_score := totalScore s,
                                   updated_at := now\<rparr>
                            else r) (sessions d)\<rparr>)
          else Inr (d\<lparr>sessions := sessions d @
                   [\<lparr>s_id = p_id s, s_player = p_player s, s_mode = p_mode s,
                     started_at = started,
                     duration_ms = durationMs s, total_score = totalScore s,
                     created_at = now, updated_at = now\<rparr>]\<rparr>))"

text \<open>
  \<^verbatim>\<open>insertSplit\<close>: insert one split of session \<open>sid\<close>; on a conflict on
  \<^verbatim>\<open>(session_id, t_ms)\<close> do nothing. The engine refuses the statement when a parameter
  does not fit its type, when a \<^verbatim>\<open>CHECK\<close> fails, or when the new row has no session.
\<close>

definition insertSplit :: "string \<Rightarrow> split \<Rightarrow> db \<Rightarrow> db_error + db" where
  "insertSplit sid sp d =
     (if \<not> pg_text sid then Inl Invalid_Text
      else if \<not> int4 (sp_t sp) \<or> \<not> int4 (sp_lap sp) then Inl Out_Of_Range
      else if (case sp_note sp of None \<Rightarrow> False | Some str \<Rightarrow> \<not> pg_text str)
        then Inl Invalid_Text
      else if sp_t sp < 0 \<or> sp_lap sp < 0 then Inl Check_Violation
      else if split_exists d sid (sp_t sp) then Inr d
      else if \<not> session_exists d sid then Inl Foreign_Key_Violation
      else Inr (d\<lparr>splits := splits d @
               [\<lparr>session_id = sid, t_ms = sp_t sp, lap = sp_lap sp,
                 score = sp_score sp, note_txt = sp_note sp\<rparr>]\<rparr>))"

text \<open>
  \<^verbatim>\<open>client.query\<close> of a data statement: inside a transaction it works on the working copy,
  outside one it commits at once. A statement that fails changes nothing.
\<close>

definition query :: "(db \<Rightarrow> db_error + db) \<Rightarrow> conn \<Rightarrow> db_error + conn" where
  "query stmt c =
     (case tx c of
        Some w \<Rightarrow> (case stmt w of Inl e \<Rightarrow> Inl e | Inr w' \<Rightarrow> Inr (c\<lparr>tx := Some w'\<rparr>))
      | None \<Rightarrow>
          (case stmt (committed c) of Inl e \<Rightarrow> Inl e | Inr d' \<Rightarrow> Inr (c\<lparr>committed := d'\<rparr>)))"

definition query_BEGIN :: "conn \<Rightarrow> conn" where
  "query_BEGIN c = (case tx c of None \<Rightarrow> c\<lparr>tx := Some (committed c)\<rparr> | Some _ \<Rightarrow> c)"

definition query_COMMIT :: "conn \<Rightarrow> conn" where
  "query_COMMIT c = (case tx c of None \<Rightarrow> c | Some w \<Rightarrow> \<lparr>committed = w, tx = None\<rparr>)"

text \<open>
  ROLLBACK is never refused by the engine: it throws only when the connection is gone
  (\<open>lost\<close>). The engine ends the open transaction of a connection that is gone, and the
  pool does not hand that connection out again.
\<close>

definition query_ROLLBACK :: "bool \<Rightarrow> conn \<Rightarrow> db_error + conn" where
  "query_ROLLBACK lost c = (if lost then Inl Statement_Failed else Inr (c\<lparr>tx := None\<rparr>))"

definition connection_lost :: "conn \<Rightarrow> conn" where
  "connection_lost c = c\<lparr>tx := None\<rparr>"

section \<open>POST /api/sessions\<close>

text \<open>
  What the client gets. \<open>No_Response\<close>: the handler throws, no reply is sent, and the
  rejection, which nothing catches, ends the process.
\<close>

datatype response =
    Upsert_Ok string nat
  | Bad_Request_Schema "string list"
  | Bad_Request_Duration
  | Server_Error db_error
  | No_Response

fun status :: "response \<Rightarrow> nat option" where
  "status (Upsert_Ok _ _) = Some 200"
| "status (Bad_Request_Schema _) = Some 400"
| "status Bad_Request_Duration = Some 400"
| "status (Server_Error _) = Some 500"
| "status No_Response = None"

fun ok :: "response \<Rightarrow> bool" where
  "ok (Upsert_Ok _ _) = True"
| "ok _ = False"

text \<open>
  The calls of the request to the storage engine are numbered: 0 is \<^verbatim>\<open>pool.connect\<close>, 1 is
  BEGIN, 2 the header upsert, 3 onwards the split inserts, then COMMIT, and last the
  ROLLBACK of the \<^verbatim>\<open>catch\<close> block. Call \<open>k\<close> throws when \<open>fails k\<close> holds (a failure that
  the statement itself does not explain: the connection is lost, the engine is out of a
  resource), or when the engine refuses the statement.

  The loop over the splits of the payload stops at the first call that throws, with the
  connection as the earlier statements left it.
\<close>

fun insert_loop ::
  "(nat \<Rightarrow> bool) \<Rightarrow> nat \<Rightarrow> string \<Rightarrow> split list \<Rightarrow> conn \<Rightarrow> nat \<Rightarrow> (db_error + nat) \<times> conn" where
  "insert_loop fails k sid [] c inserted = (Inr inserted, c)"
| "insert_loop fails k sid (sp # sps) c inserted =
     (if fails k then (Inl Statement_Failed, c)
      else case query (insertSplit sid sp) c of
             Inl e \<Rightarrow> (Inl e, c)
           | Inr c' \<Rightarrow> insert_loop fails (Suc k) sid sps c' (inserted + 1))"

text \<open>
  The body of the handler's \<^verbatim>\<open>try\<close>: BEGIN, the header upsert, the split inserts,
  COMMIT. The result is the exception thrown or the value of \<^verbatim>\<open>inserted\<close>, and the
  connection at that moment.
\<close>

definition upsert_tx ::
  "(nat \<Rightarrow> bool) \<Rightarrow> timestamp \<Rightarrow> payload \<Rightarrow> conn \<Rightarrow> (db_error + nat) \<times> conn" where
  "upsert_tx fails now s c0 =
     (if fails 1 then (Inl Statement_Failed, c0)
      else let c1 = query_BEGIN c0 in
        if fails 2 then (Inl Statement_Failed, c1)
        else case query (upsertQ now s) c1 of
               Inl e \<Rightarrow> (Inl e, c1)
             | Inr c2 \<Rightarrow>
                 (case (if p_splits s = [] then (Inr 0, c2)
                        else insert_loop fails 3 (p_id s) (p_splits s) c2 0) of
                    (Inl e, c3) \<Rightarrow> (Inl e, c3)
                  | (Inr inserted, c3) \<Rightarrow>
                      if fails (3 + length (p_splits s)) then (Inl Statement_Failed, c3)
                      else (Inr inserted, query_COMMIT c3)))"

text \<open>\<^verbatim>\<open>s.splits.reduce((m, sp) => Math.max(m, sp.t), 0)\<close>\<close>

definition maxT :: "split list \<Rightarrow> int" where
  "maxT sps = foldl (\<lambda>m sp. max m (sp_t sp)) 0 sps"

text \<open>
  The handler: the response, and the database connection after the request.
  \<^verbatim>\<open>pool.connect\<close> is awaited outside the \<^verbatim>\<open>try\<close>, and the ROLLBACK of the \<^verbatim>\<open>catch\<close> block
  is awaited before the reply with status 500 is sent: when either throws, the handler
  throws, and no reply is sent. Requests are handled one at a time.
\<close>

definition post_sessions ::
  "(nat \<Rightarrow> bool) \<Rightarrow> timestamp \<Rightarrow> json \<Rightarrow> conn \<Rightarrow> response \<times> conn" where
  "post_sessions fails now body c =
     (case SessionUpsertSchema body of
        Inl errs \<Rightarrow> (Bad_Request_Schema errs, c)
      | Inr s \<Rightarrow>
          if durationMs s < maxT (p_splits s) then (Bad_Request_Duration, c)
          else if fails 0 then (No_Response, c)
          else (case upsert_tx fails now s c of
                  (Inr inserted, c') \<Rightarrow> (Upsert_Ok (p_id s) inserted, c')
                | (Inl e, c') \<Rightarrow>
                    (case query_ROLLBACK (fails (4 + length (p_splits s))) c' of
                       Inr c'' \<Rightarrow> (Server_Error e, c'')
                     | Inl _ \<Rightarrow> (No_Response, connection_lost c'))))"

section \<open>GET /api/sessions/:id\<close>

text \<open>
  The two queries of the detail handler: the header with the given id, and the session's
  splits by ascending \<^verbatim>\<open>t_ms\<close>. \<open>select_split\<close> is the stored split with primary key
  \<^verbatim>\<open>(session_id, t_ms)\<close>.
\<close>

definition select_session :: "db \<Rightarrow> string \<Rightarrow> session_row option" where
  "select_session d i = find (\<lambda>r. s_id r = i) (sessions d)"

definition select_splits :: "db \<Rightarrow> string \<Rightarrow> split_row list" where
  "select_splits d i = sort_key t_ms (filter (\<lambda>r. session_id r = i) (splits d))"

definition select_split :: "db \<Rightarrow> string \<Rightarrow> int \<Rightarrow> split_row option" where
  "select_split d i t = find (\<lambda>r. session_id r = i \<and> t_ms r = t) (splits d)"

definition get_session :: "db \<Rightarrow> string \<Rightarrow> (session_row \<times> split_row list) option" where
  "get_session d i =
     (case select_session d i of
        None \<Rightarrow> None
      | Some r \<Rightarrow> Some (r, select_splits d i))"

section \<open>JavaScript numbers and query parameters\<close>

text \<open>
  The numbers that the handlers compute from the query string are integers held in
  doubles, or an infinity, or \<^verbatim>\<open>NaN\<close>. The Number value of an integer is the nearest
  integer with 53 significant bits, a tie going to the even one, and an infinity from
  \<open>2\<^sup>1\<^sup>0\<^sup>2\<^sup>4\<close> on.
\<close>

datatype number = NaN | Num int | Infinity | Minus_Infinity

text \<open>The number of binary digits of a positive integer.\<close>

function bit_length :: "int \<Rightarrow> nat" where
  "bit_length n = (if n \<le> 0 then 0 else Suc (bit_length (n div 2)))"
  by pat_completeness auto
termination
  by (relation "measure nat") auto

declare bit_length.simps [simp del]

text \<open>The nearest integer with 53 significant bits, for a magnitude \<open>a\<close>.\<close>

definition round53 :: "int \<Rightarrow> int" where
  "round53 a =
     (let e = bit_length a - 53
      in if e = 0 then a
         else let q = a div 2 ^ e; r = a mod 2 ^ e; half = 2 ^ (e - 1)
              in (if half < r \<or> (r = half \<and> odd q) then q + 1 else q) * 2 ^ e)"

definition to_number :: "int \<Rightarrow> number" where
  "to_number n =
     (let a = round53 \<bar>n\<bar>
      in if 2 ^ 1024 \<le> a then (if n < 0 then Minus_Infinity else Infinity)
         else Num (if n < 0 then - a else a))"

text \<open>
  A parameter of the query string is \<open>None\<close> when absent and otherwise the string that
  \<^verbatim>\<open>String(...)\<close> makes of it. \<^verbatim>\<open>parseInt(s, 10)\<close> skips leading white space, reads an
  optional sign and the longest run of decimal digits, and is \<^verbatim>\<open>NaN\<close> when there is no
  digit.
\<close>

definition is_space :: "char \<Rightarrow> bool" where
  "is_space ch \<longleftrightarrow> (of_char ch :: nat) \<in> {9, 10, 11, 12, 13, 32, 160}"

definition is_digit :: "char \<Rightarrow> bool" where
  "is_digit ch \<longleftrightarrow> 48 \<le> (of_char ch :: nat) \<and> (of_char ch :: nat) \<le> 57"

definition digits_value :: "string \<Rightarrow> int" where
  "digits_value ds = foldl (\<lambda>a ch. 10 * a + (of_char ch - 48)) 0 ds"

definition parseInt :: "string \<Rightarrow> number" where
  "parseInt str =
     (let s1 = dropWhile is_space str;
          negative = (case s1 of ch # _ \<Rightarrow> ch = CHR ''-'' | [] \<Rightarrow> False);
          s2 = (case s1 of ch # rest \<Rightarrow> if ch = CHR ''-'' \<or> ch = CHR ''+'' then rest else s1
                | [] \<Rightarrow> s1);
          ds = takeWhile is_digit s2
      in if ds = [] then NaN
         else to_number (if negative then - digits_value ds else digits_value ds))"

text \<open>\<^verbatim>\<open>parseInt(String(v ?? dflt), 10) || n\<close>: \<^verbatim>\<open>NaN\<close> and 0 give the default \<open>n\<close>.\<close>

definition int_param :: "string option \<Rightarrow> string \<Rightarrow> int \<Rightarrow> number" where
  "int_param v dflt n =
     (case parseInt (case v of None \<Rightarrow> dflt | Some str \<Rightarrow> str) of
        NaN \<Rightarrow> Num n
      | Num k \<Rightarrow> if k = 0 then Num n else Num k
      | Infinity \<Rightarrow> Infinity
      | Minus_Infinity \<Rightarrow> Minus_Infinity)"

text \<open>\<^verbatim>\<open>Math.max(a, x)\<close> and \<^verbatim>\<open>Math.min(a, x)\<close> for an integer \<open>a\<close>.\<close>

definition Math_max :: "int \<Rightarrow> number \<Rightarrow> number" where
  "Math_max a x =
     (case x of NaN \<Rightarrow> NaN | Num k \<Rightarrow> Num (max a k) | Infinity \<Rightarrow> Infinity
      | Minus_Infinity \<Rightarrow> Num a)"

definition Math_min :: "int \<Rightarrow> number \<Rightarrow> number" where
  "Math_min a x =
     (case x of NaN \<Rightarrow> NaN | Num k \<Rightarrow> Num (min a k) | Infinity \<Rightarrow> Num a
      | Minus_Infinity \<Rightarrow> Minus_Infinity)"

text \<open>\<^verbatim>\<open>v ? String(v) : null\<close>: an absent and an empty parameter are no filter.\<close>

definition str_param :: "string option \<Rightarrow> string option" where
  "str_param v = (case v of None \<Rightarrow> None | Some str \<Rightarrow> if str = [] then None else Some str)"

section \<open>GET /api/sessions\<close>













text \<open>
  The handler. The two queries are sent together; \<open>fails 0\<close> and \<open>fails 1\<close> say whether the
  page query and the count query fail for a reason of their own. The result is \<open>None\<close>
  when a query fails or is refused (a page, limit or offset that is no \<^verbatim>\<open>bigint\<close>, an
  invalid date, a player or mode filter that is no \<^verbatim>\<open>text\<close> value): the handler throws,
  nothing catches it, and no page is produced.
\<close>

definition pg_param :: "string option \<Rightarrow> bool" where
  "pg_param v \<longleftrightarrow> (case v of None \<Rightarrow> True | Some str \<Rightarrow> pg_text str)"



section \<open>GET /api/leaderboard\<close>

record board_row =
  b_player :: string
  b_mode :: string
  best_score :: rat

text \<open>
  \<^verbatim>\<open>GROUP BY player, mode\<close> with \<^verbatim>\<open>MAX(total_score)\<close>: each row joins the group of its
  player and mode, raising the group's best score, or opens a new group.
\<close>

fun add_row :: "session_row \<Rightarrow> board_row list \<Rightarrow> board_row list" where
  "add_row r [] = [\<lparr>b_player = s_player r, b_mode = s_mode r, best_score = total_score r\<rparr>]"
| "add_row r (g # gs) =
     (if b_player g = s_player r \<and> b_mode g = s_mode r
      then g\<lparr>best_score := max (best_score g) (total_score r)\<rparr> # gs
      else g # add_row r gs)"

definition group_by_player_mode :: "session_row list \<Rightarrow> board_row list" where
  "group_by_player_mode rows = foldl (\<lambda>gs r. add_row r gs) [] rows"

text \<open>The grouping columns of a session and of a group.\<close>

definition session_key :: "session_row \<Rightarrow> string \<times> string" where
  "session_key r = (s_player r, s_mode r)"

definition board_key :: "board_row \<Rightarrow> string \<times> string" where
  "board_key g = (b_player g, b_mode g)"

text \<open>
  What the ranking is measured against: the scores of the rows of one player and mode,
  and the best score that a list of groups holds for a player and mode.
\<close>

definition scores_of :: "session_row list \<Rightarrow> string \<times> string \<Rightarrow> rat set" where
  "scores_of rows k = total_score ` {r \<in> set rows. session_key r = k}"

definition best_of :: "board_row list \<Rightarrow> string \<times> string \<Rightarrow> rat option" where
  "best_of gs k = map_option best_score (find (\<lambda>g. board_key g = k) gs)"

definition board_limit :: "string option \<Rightarrow> number" where
  "board_limit v = Math_min 100 (Math_max 1 (int_param v ''10'' 10))"

definition board_rows :: "string option \<Rightarrow> db \<Rightarrow> session_row list" where
  "board_rows mode d =
     filter (\<lambda>r. case str_param mode of None \<Rightarrow> True | Some v \<Rightarrow> s_mode r = v) (sessions d)"

text \<open>
  The handler; \<open>fails\<close> says whether the query fails for a reason of its own. When it
  fails or is refused (a mode that is no \<^verbatim>\<open>text\<close> value), the handler throws and no list
  is produced.
\<close>

definition get_leaderboard ::
  "bool \<Rightarrow> string option \<Rightarrow> string option \<Rightarrow> db \<Rightarrow> board_row list option" where
  "get_leaderboard fails limit mode d =
     (case board_limit limit of
        Num n \<Rightarrow>
          if fails \<or> \<not> pg_param (str_param mode) then None
          else Some (take (nat n)
                 (sort_key (\<lambda>g. - best_score g) (group_by_player_mode (board_rows mode d))))
      | _ \<Rightarrow> None)"

section \<open>The access gate and the routes\<close>

datatype gate = Next | Unauthorized

text \<open>\<open>api_key\<close> is the configured secret; the empty string when none is configured.\<close>

definition requireApiKey :: "string \<Rightarrow> string option \<Rightarrow> gate" where
  "requireApiKey api_key header =
     (if api_key = [] then Next
      else if header = Some api_key then Next
      else Unauthorized)"

record request =
  r_method :: string
  r_path :: string
  x_api_key :: "string option"

datatype endpoint =
    Health
  | Version
  | Upsert_Session
  | List_Sessions
  | Session_Detail string
  | Leaderboard
  | Players
  | Modes
  | Stats

text \<open>The routes registered after the gate, in the order of their registration.\<close>

definition data_route :: "string \<Rightarrow> string \<Rightarrow> endpoint option" where
  "data_route method path =
     (if method = ''POST'' \<and> path = ''/api/sessions'' then Some Upsert_Session
      else if method = ''GET'' \<and> path = ''/api/sessions'' then Some List_Sessions
      else if method = ''GET'' \<and> take 14 path = ''/api/sessions/'' \<and> drop 14 path \<noteq> []
              \<and> CHR ''/'' \<notin> set (drop 14 path)
        then Some (Session_Detail (drop 14 path))
      else if method = ''GET'' \<and> path = ''/api/leaderboard'' then Some Leaderboard
      else if method = ''GET'' \<and> path = ''/api/players'' then Some Players
      else if method = ''GET'' \<and> path = ''/api/modes'' then Some Modes
      else if method = ''GET'' \<and> path = ''/api/stats'' then Some Stats
      else None)"

text \<open>
  The outcome of a request: the endpoint whose handler serves it, the 401 of the gate, or
  no route (404). The two public routes are registered before the gate, which covers
  every path under \<^verbatim>\<open>/api\<close>. Paths are compared as written; the middleware in front of
  the routes (security headers, CORS, body parser, logger, rate limit) is left out.
\<close>

datatype outcome = Served endpoint | Rejected_401 | No_Route

definition under_api :: "string \<Rightarrow> bool" where
  "under_api path \<longleftrightarrow> path = ''/api'' \<or> take 5 path = ''/api/''"

definition app :: "string \<Rightarrow> request \<Rightarrow> outcome" where
  "app api_key req =
     (if r_method req = ''GET'' \<and> r_path req = ''/api/health'' then Served Health
      else if r_method req = ''GET'' \<and> r_path req = ''/api/version'' then Served Version
      else if under_api (r_path req) then
        (case requireApiKey api_key (x_api_key req) of
           Unauthorized \<Rightarrow> Rejected_401
         | Next \<Rightarrow>
             (case data_route (r_method req) (r_path req) of
                Some e \<Rightarrow> Served e
              | None \<Rightarrow> No_Route))
      else No_Route)"

text \<open>
  The same body submitted again and again, each time with its own faults of the storage
  engine and its own clock.
\<close>

fun replay :: "((nat \<Rightarrow> bool) \<times> timestamp) list \<Rightarrow> json \<Rightarrow> conn \<Rightarrow> conn" where
  "replay [] body c = c"
| "replay ((fails, now) # envs) body c =
     replay envs body (snd (post_sessions fails now body c))"

section \<open>Example requests\<close>

text \<open>The storage engine with no failure of its own.\<close>

definition no_faults :: "nat \<Rightarrow> bool" where
  "no_faults k = False"

text \<open>A fault of the storage engine at call \<open>j\<close> of the request, the connection staying usable.\<close>

definition fault_at :: "nat \<Rightarrow> nat \<Rightarrow> bool" where
  "fault_at j k \<longleftrightarrow> k = j"

text \<open>The connection is lost at call \<open>j\<close>: that call and every later one throws.\<close>

definition lost_from :: "nat \<Rightarrow> nat \<Rightarrow> bool" where
  "lost_from j k \<longleftrightarrow> j \<le> k"

definition mk_split :: "int \<Rightarrow> int \<Rightarrow> rat \<Rightarrow> json" where
  "mk_split t l sc =
     JObj [(''t'', JNum (of_int t)), (''lap'', JNum (of_int l)), (''score'', JNum sc)]"

definition mk_header :: "string \<Rightarrow> string \<Rightarrow> string \<Rightarrow> int \<Rightarrow> rat \<Rightarrow> (string \<times> json) list" where
  "mk_header i pl m du ts =
     [(''id'', JStr i), (''player'', JStr pl), (''mode'', JStr m),
      (''startedAt'', JNum 1000), (''durationMs'', JNum (of_int du)),
      (''totalScore'', JNum ts)]"

definition mk_body :: "string \<Rightarrow> string \<Rightarrow> string \<Rightarrow> int \<Rightarrow> rat \<Rightarrow> json list \<Rightarrow> json" where
  "mk_body i pl m du ts sps = JObj (mk_header i pl m du ts @ [(''splits'', JArr sps)])"

text \<open>A first submission of session \<^verbatim>\<open>s_1\<close>, and the database it leaves when it ran at time 7.\<close>

definition first_body :: json where
  "first_body = mk_body ''s_1'' ''Mati'' ''carreras'' 500 10 [mk_split 200 1 3]"

definition first_payload :: payload where
  "first_payload =
     \<lparr>p_id = ''s_1'', p_player = ''Mati'', p_mode = ''carreras'', startedAt = 1000,
      durationMs = 500, totalScore = 10,
      p_splits = [\<lparr>sp_t = 200, sp_lap = 1, sp_score = 3, sp_note = None\<rparr>]\<rparr>"

definition empty_conn :: conn where
  "empty_conn = \<lparr>committed = \<lparr>sessions = [], splits = []\<rparr>, tx = None\<rparr>"

definition stored_session :: session_row where
  "stored_session =
     \<lparr>s_id = ''s_1'', s_player = ''Mati'', s_mode = ''carreras'', started_at = 1,
      duration_ms = 500, total_score = 10, created_at = 7, updated_at = 7\<rparr>"

definition stored_split :: split_row where
  "stored_split = \<lparr>session_id = ''s_1'', t_ms = 200, lap = 1, score = 3, note_txt = None\<rparr>"

definition stored_conn :: conn where
  "stored_conn =
     \<lparr>committed = \<lparr>sessions = [stored_session], splits = [stored_split]\<rparr>, tx = None\<rparr>"

text \<open>
  A later submission of the same session: another player and score, the stored offset 200
  with another lap and score, and a new offset 300.
\<close>

definition second_body :: json where
  "second_body =
     mk_body ''s_1'' ''Ana'' ''futbol'' 600 25 [mk_split 200 9 99, mk_split 300 2 5]"

definition second_payload :: payload where
  "second_payload =
     \<lparr>p_id = ''s_1'', p_player = ''Ana'', p_mode = ''futbol'', startedAt = 1000,
      durationMs = 600, totalScore = 25,
      p_splits = [\<lparr>sp_t = 200, sp_lap = 9, sp_score = 99, sp_note = None\<rparr>,
                  \<lparr>sp_t = 300, sp_lap = 2, sp_score = 5, sp_note = None\<rparr>]\<rparr>"

text \<open>A submission whose second split has a lap beyond the range of the column.\<close>

definition overflow_body :: json where
  "overflow_body =
     mk_body ''s_1'' ''Ana'' ''futbol'' 600 25 [mk_split 300 2 5, mk_split 400 2147483648 1]"

definition overflow_payload :: payload where
  "overflow_payload =
     \<lparr>p_id = ''s_1'', p_player = ''Ana'', p_mode = ''futbol'', startedAt = 1000,
      durationMs = 600, totalScore = 25,
      p_splits = [\<lparr>sp_t = 300, sp_lap = 2, sp_score = 5, sp_note = None\<rparr>,
                  \<lparr>sp_t = 400, sp_lap = 2147483648, sp_score = 1, sp_note = None\<rparr>]\<rparr>"

text \<open>The two payloads of the duration test, a body with no \<^verbatim>\<open>splits\<close> and one in mode \<^verbatim>\<open>racing\<close>.\<close>

definition short_body :: json where
  "short_body = mk_body ''s_2'' ''Mati'' ''carreras'' 100 0 [mk_split 500 1 0]"

definition exact_body :: json where
  "exact_body = mk_body ''s_2'' ''Mati'' ''carreras'' 500 0 [mk_split 500 1 0]"

definition exact_payload :: payload where
  "exact_payload =
     \<lparr>p_id = ''s_2'', p_player = ''Mati'', p_mode = ''carreras'', startedAt = 1000,
      durationMs = 500, totalScore = 0,
      p_splits = [\<lparr>sp_t = 500, sp_lap = 1, sp_score = 0, sp_note = None\<rparr>]\<rparr>"

definition short_payload :: payload where
  "short_payload = exact_payload\<lparr>durationMs := 100\<rparr>"




definition racing_body :: json where
  "racing_body = mk_body ''s_4'' ''Mati'' ''racing'' 500 10 []"

definition carreras_body :: json where
  "carreras_body = mk_body ''s_4'' ''Mati'' ''carreras'' 500 10 []"

definition example_request :: "string \<Rightarrow> string \<Rightarrow> string option \<Rightarrow> request" where
  "example_request m p k = \<lparr>r_method = m, r_path = p, x_api_key = k\<rparr>"



text \<open>Player A with scores 10 and 20 and player B with score 15, all in one mode.\<close>

definition board_session :: "string \<Rightarrow> string \<Rightarrow> string \<Rightarrow> rat \<Rightarrow> session_row" where
  "board_session i pl m sc =
     \<lparr>s_id = i, s_player = pl, s_mode = m, started_at = 1, duration_ms = 0,
      total_score = sc, created_at = 7, updated_at = 7\<rparr>"

definition board_db :: "string \<Rightarrow> db" where
  "board_db m =
     \<lparr>sessions = [board_session ''s_b'' ''B'' m 15, board_session ''s_a1'' ''A'' m 10,
                  board_session ''s_a2'' ''A'' m 20],
      splits = []\<rparr>"

text \<open>The same three sessions in \<^verbatim>\<open>carreras\<close>, and player C with 30 in \<^verbatim>\<open>futbol\<close>.\<close>

definition mixed_db :: db where
  "mixed_db =
     \<lparr>sessions = [board_session ''s_b'' ''B'' ''carreras'' 15,
                  board_session ''s_a1'' ''A'' ''carreras'' 10,
                  board_session ''s_c'' ''C'' ''futbol'' 30,
                  board_session ''s_a2'' ''A'' ''carreras'' 20],
      splits = []\<rparr>"

section \<open>Properties of the upsert\<close>

lemmas schema_defs = SessionUpsertSchema_def get_prop_def z_string_min_def z_enum_mode_def
  z_int_nonnegative_def z_number_def z_splits_def SplitSchema_def z_note_def issue_def
  mk_body_def mk_header_def mk_split_def

lemmas tx_defs = maxT_def upsert_tx_def query_BEGIN_def query_def
  upsertQ_def int4_def insertSplit_def query_COMMIT_def query_ROLLBACK_def to_timestamp_def
  session_exists_def split_exists_def no_faults_def fault_at_def lost_from_def pg_text_def
  connection_lost_def

lemmas store_defs = empty_conn_def stored_conn_def stored_session_def stored_split_def

lemma first_body_parse: "SessionUpsertSchema first_body = Inr first_payload"
  by (simp add: first_body_def first_payload_def schema_defs)

lemma second_body_parse: "SessionUpsertSchema second_body = Inr second_payload"
  by (simp add: second_body_def second_payload_def schema_defs)

lemma overflow_body_parse: "SessionUpsertSchema overflow_body = Inr overflow_payload"
  by (simp add: overflow_body_def overflow_payload_def schema_defs)

lemma exact_body_parse: "SessionUpsertSchema exact_body = Inr exact_payload"
  by (simp add: exact_body_def exact_payload_def schema_defs)

lemma short_body_parse: "SessionUpsertSchema short_body = Inr short_payload"
  by (simp add: short_body_def short_payload_def exact_payload_def schema_defs)


lemma find_append_Some: "find P xs = Some r \<Longrightarrow> find P (xs @ ys) = Some r"
  by (induction xs) auto

lemma query_in_tx:
  "tx c = Some w \<Longrightarrow>
   query stmt c = (case stmt w of Inl e \<Rightarrow> Inl e | Inr w' \<Rightarrow> Inr (c\<lparr>tx := Some w'\<rparr>))"
  by (simp add: query_def)

lemma upsertQ_splits: "upsertQ now s d = Inr d' \<Longrightarrow> splits d' = splits d"
  by (auto simp: upsertQ_def split: if_splits option.splits)

lemma split_exists_append:
  "split_exists d sid t \<Longrightarrow> splits d' = splits d @ ys \<Longrightarrow> split_exists d' sid t"
  by (auto simp: split_exists_def)

lemma insertSplit_effect:
  "insertSplit sid sp d = Inr d' \<Longrightarrow>
   sessions d' = sessions d \<and> split_exists d' sid (sp_t sp) \<and>
   (d' = d \<and> split_exists d sid (sp_t sp) \<or>
    splits d' = splits d @ [\<lparr>session_id = sid, t_ms = sp_t sp, lap = sp_lap sp,
                 score = sp_score sp, note_txt = sp_note sp\<rparr>] \<and>
    \<not> split_exists d sid (sp_t sp))"
  by (auto simp: insertSplit_def split_exists_def split: if_splits)

lemma insertSplit_conflict:
  "split_exists d sid (sp_t sp) \<Longrightarrow> insertSplit sid sp d = Inr d' \<Longrightarrow> d' = d"
  by (auto simp: insertSplit_def split: if_splits)

lemma insert_loop_committed:
  "tx c = Some w \<Longrightarrow> insert_loop fails k sid sps c n = (r, c') \<Longrightarrow>
   committed c' = committed c \<and> tx c' \<noteq> None"
proof (induction sps arbitrary: c w k n)
  case Nil
  then show ?case by auto
next
  case (Cons sp sps)
  show ?case
  proof (cases "fails k")
    case True
    with Cons.prems show ?thesis by auto
  next
    case False
    show ?thesis
    proof (cases "insertSplit sid sp w")
      case (Inl e)
      with Cons.prems False show ?thesis by (auto simp: query_in_tx)
    next
      case (Inr w')
      with Cons.prems False
      have "insert_loop fails (Suc k) sid sps (c\<lparr>tx := Some w'\<rparr>) (n + 1) = (r, c')"
        by (simp add: query_in_tx)
      from Cons.IH[OF _ this] show ?thesis by simp
    qed
  qed
qed

lemma conn_tx_same: "tx c = Some w \<Longrightarrow> c\<lparr>tx := Some w\<rparr> = c"
  by (cases c) simp

lemma insert_loop_success:
  "tx c = Some w \<Longrightarrow> insert_loop fails k sid sps c n = (Inr m, c') \<Longrightarrow>
   m = n + length sps \<and>
   (\<exists>w' ys. c' = c\<lparr>tx := Some w'\<rparr> \<and> sessions w' = sessions w \<and>
      splits w' = splits w @ ys \<and>
      (\<forall>r \<in> set ys. session_id r = sid \<and> t_ms r \<in> sp_t ` set sps \<and>
           \<not> split_exists w sid (t_ms r)) \<and>
      (\<forall>sp \<in> set sps. split_exists w' sid (sp_t sp)))"
proof (induction sps arbitrary: c w k n)
  case Nil
  then have "m = n" "c' = c\<lparr>tx := Some w\<rparr>" by (simp_all add: conn_tx_same)
  then show ?case by (intro conjI exI[of _ w] exI[of _ "[]"]) simp_all
next
  case (Cons sp sps)
  from Cons.prems have nf: "\<not> fails k" by (auto split: if_splits)
  from Cons.prems nf obtain w1 where
    w1: "insertSplit sid sp w = Inr w1" and
    rest: "insert_loop fails (Suc k) sid sps (c\<lparr>tx := Some w1\<rparr>) (n + 1) = (Inr m, c')"
    by (auto simp: query_in_tx split: sum.splits)
  from Cons.IH[OF _ rest] obtain w' ys where
    m: "m = n + 1 + length sps" and
    c': "c' = c\<lparr>tx := Some w'\<rparr>" and
    se: "sessions w' = sessions w1" and
    sp': "splits w' = splits w1 @ ys" and
    new: "\<forall>r \<in> set ys. session_id r = sid \<and> t_ms r \<in> sp_t ` set sps \<and>
           \<not> split_exists w1 sid (t_ms r)" and
    all: "\<forall>sp \<in> set sps. split_exists w' sid (sp_t sp)"
    by auto
  from insertSplit_effect[OF w1] have
    e1: "sessions w1 = sessions w" and e2: "split_exists w1 sid (sp_t sp)" and
    e3: "w1 = w \<and> split_exists w sid (sp_t sp) \<or>
         splits w1 = splits w @ [\<lparr>session_id = sid, t_ms = sp_t sp, lap = sp_lap sp,
                 score = sp_score sp, note_txt = sp_note sp\<rparr>] \<and>
         \<not> split_exists w sid (sp_t sp)"
    by auto
  from e3 obtain zs where zs: "splits w1 = splits w @ zs"
    and zsnew: "\<forall>r \<in> set zs. session_id r = sid \<and> t_ms r = sp_t sp \<and>
           \<not> split_exists w sid (t_ms r)"
    by auto
  have old: "\<And>i t. split_exists w i t \<Longrightarrow> split_exists w1 i t"
    using zs by (auto simp: split_exists_def)
  have "splits w' = splits w @ (zs @ ys)" using sp' zs by simp
  moreover have "\<forall>r \<in> set (zs @ ys). session_id r = sid \<and>
      t_ms r \<in> sp_t ` set (sp # sps) \<and> \<not> split_exists w sid (t_ms r)"
    using zsnew new old by auto
  moreover have "\<forall>q \<in> set (sp # sps). split_exists w' sid (sp_t q)"
    using all e2 sp' by (auto intro: split_exists_append)
  ultimately have "c' = c\<lparr>tx := Some w'\<rparr> \<and> sessions w' = sessions w \<and>
      splits w' = splits w @ (zs @ ys) \<and>
      (\<forall>r \<in> set (zs @ ys). session_id r = sid \<and> t_ms r \<in> sp_t ` set (sp # sps) \<and>
           \<not> split_exists w sid (t_ms r)) \<and>
      (\<forall>q \<in> set (sp # sps). split_exists w' sid (sp_t q))"
    using c' se e1 by auto
  then have "\<exists>w' ys. c' = c\<lparr>tx := Some w'\<rparr> \<and> sessions w' = sessions w \<and>
      splits w' = splits w @ ys \<and>
      (\<forall>r \<in> set ys. session_id r = sid \<and> t_ms r \<in> sp_t ` set (sp # sps) \<and>
           \<not> split_exists w sid (t_ms r)) \<and>
      (\<forall>q \<in> set (sp # sps). split_exists w' sid (sp_t q))"
    by blast
  with m show ?case by simp
qed

lemma insert_loop_noop:
  "tx c = Some w \<Longrightarrow> \<forall>sp \<in> set sps. split_exists w sid (sp_t sp) \<Longrightarrow>
   insert_loop fails k sid sps c n = (r, c') \<Longrightarrow> c' = c"
proof (induction sps arbitrary: k n)
  case Nil
  then show ?case by auto
next
  case (Cons sp sps)
  show ?case
  proof (cases "fails k")
    case True
    with Cons.prems show ?thesis by auto
  next
    case False
    show ?thesis
    proof (cases "insertSplit sid sp w")
      case (Inl e)
      with Cons.prems False show ?thesis by (auto simp: query_in_tx)
    next
      case (Inr w')
      with Cons.prems have "w' = w" by (auto dest: insertSplit_conflict)
      with Inr Cons.prems False
      have "insert_loop fails (Suc k) sid sps c (n + 1) = (r, c')"
        by (simp add: query_in_tx conn_tx_same)
      with Cons.IH Cons.prems show ?thesis by auto
    qed
  qed
qed

lemma insert_loop_fault:
  "k \<le> j \<Longrightarrow> j < k + length sps \<Longrightarrow> fails j \<Longrightarrow>
   \<exists>e. fst (insert_loop fails k sid sps c n) = Inl e"
proof (induction sps arbitrary: k c n)
  case Nil
  then show ?case by simp
next
  case (Cons sp sps)
  show ?case
  proof (cases "j = k")
    case True
    with Cons.prems show ?thesis by simp
  next
    case False
    with Cons.prems have "Suc k \<le> j" "j < Suc k + length sps" by auto
    from Cons.IH[OF this Cons.prems(3)] show ?thesis
      by (auto split: sum.splits)
  qed
qed

lemma query_BEGIN_tx:
  "\<exists>w. tx (query_BEGIN c) = Some w \<and> (tx c = None \<longrightarrow> w = committed c)"
  by (cases "tx c") (auto simp: query_BEGIN_def)

lemma query_BEGIN_committed: "committed (query_BEGIN c) = committed c"
  by (cases "tx c") (auto simp: query_BEGIN_def)

lemma upsert_tx_failure:
  assumes "upsert_tx fails now s c = (Inl e, c')"
  shows "committed c' = committed c"
proof -
  define c1 where "c1 = query_BEGIN c"
  obtain w where w: "tx c1 = Some w" using query_BEGIN_tx[of c] by (auto simp: c1_def)
  have c1: "committed c1 = committed c" by (simp add: c1_def query_BEGIN_committed)
  show ?thesis
  proof (cases "fails 1 \<or> fails 2")
    case True
    with assms c1 show ?thesis
      by (auto simp: upsert_tx_def Let_def c1_def[symmetric] split: if_splits)
  next
    case nf: False
    show ?thesis
    proof (cases "upsertQ now s w")
      case (Inl e')
      with assms nf w c1 show ?thesis
        by (auto simp: upsert_tx_def Let_def c1_def[symmetric] query_in_tx)
    next
      case (Inr w2)
      define c2 where "c2 = c1\<lparr>tx := Some w2\<rparr>"
      have q: "query (upsertQ now s) c1 = Inr c2"
        using Inr w by (simp add: query_in_tx c2_def)
      have c2: "committed c2 = committed c" "tx c2 = Some w2"
        using c1 by (simp_all add: c2_def)
      show ?thesis
      proof (cases "p_splits s = []")
        case True
        with assms nf q c2 show ?thesis
          by (auto simp: upsert_tx_def Let_def c1_def[symmetric] split: if_splits)
      next
        case False
        obtain r c3 where l: "insert_loop fails 3 (p_id s) (p_splits s) c2 0 = (r, c3)"
          by (cases "insert_loop fails 3 (p_id s) (p_splits s) c2 0") auto
        from insert_loop_committed[OF c2(2) l] c2 have "committed c3 = committed c" by simp
        with assms nf q False l show ?thesis
          by (auto simp: upsert_tx_def Let_def c1_def[symmetric] split: if_splits sum.splits)
      qed
    qed
  qed
qed

lemma upsert_tx_success:
  assumes idle: "tx c = None" and run: "upsert_tx fails now s c = (Inr m, c')"
  shows "m = length (p_splits s) \<and>
    (\<exists>d1 d2 ys. upsertQ now s (committed c) = Inr d1 \<and> c' = \<lparr>committed = d2, tx = None\<rparr> \<and>
       sessions d2 = sessions d1 \<and> splits d2 = splits (committed c) @ ys \<and>
       (\<forall>r \<in> set ys. session_id r = p_id s \<and> t_ms r \<in> sp_t ` set (p_splits s) \<and>
            \<not> split_exists (committed c) (p_id s) (t_ms r)) \<and>
       (\<forall>sp \<in> set (p_splits s). split_exists d2 (p_id s) (sp_t sp)))"
proof -
  define c1 where "c1 = c\<lparr>tx := Some (committed c)\<rparr>"
  have b: "query_BEGIN c = c1" using idle by (simp add: query_BEGIN_def c1_def)
  have w: "tx c1 = Some (committed c)" by (simp add: c1_def)
  from run have nf: "\<not> fails 1" "\<not> fails 2"
    by (auto simp: upsert_tx_def Let_def split: if_splits)
  from run nf b obtain c2 where q: "query (upsertQ now s) c1 = Inr c2"
    by (auto simp: upsert_tx_def Let_def split: sum.splits)
  with w obtain d1 where d1: "upsertQ now s (committed c) = Inr d1"
    and c2: "c2 = c1\<lparr>tx := Some d1\<rparr>"
    by (auto simp: query_in_tx split: sum.splits)
  have t2: "tx c2 = Some d1" by (simp add: c2)
  have s1: "splits d1 = splits (committed c)" using d1 by (rule upsertQ_splits)
  show ?thesis
  proof (cases "p_splits s = []")
    case True
    with run nf b q have "m = 0" "c' = query_COMMIT c2"
      by (auto simp: upsert_tx_def Let_def split: if_splits)
    then have "m = 0" "c' = \<lparr>committed = d1, tx = None\<rparr>"
      by (simp_all add: query_COMMIT_def c2)
    with True d1 s1 have "m = length (p_splits s)" and
      "upsertQ now s (committed c) = Inr d1 \<and>
       c' = \<lparr>committed = d1, tx = None\<rparr> \<and>
       sessions d1 = sessions d1 \<and> splits d1 = splits (committed c) @ [] \<and>
       (\<forall>r \<in> set []. session_id r = p_id s \<and> t_ms r \<in> sp_t ` set (p_splits s) \<and>
            \<not> split_exists (committed c) (p_id s) (t_ms r)) \<and>
       (\<forall>sp \<in> set (p_splits s). split_exists d1 (p_id s) (sp_t sp))"
      by simp_all
    then show ?thesis by blast
  next
    case False
    with run nf b q obtain c3 where
      l: "insert_loop fails 3 (p_id s) (p_splits s) c2 0 = (Inr m, c3)" and
      c': "c' = query_COMMIT c3"
      by (auto simp: upsert_tx_def Let_def split: if_splits sum.splits prod.splits)
    from insert_loop_success[OF t2 l] obtain w' ys where
      m: "m = length (p_splits s)" and c3: "c3 = c2\<lparr>tx := Some w'\<rparr>" and
      se: "sessions w' = sessions d1" and sp: "splits w' = splits d1 @ ys" and
      new: "\<forall>r \<in> set ys. session_id r = p_id s \<and> t_ms r \<in> sp_t ` set (p_splits s) \<and>
            \<not> split_exists d1 (p_id s) (t_ms r)" and
      all: "\<forall>sp \<in> set (p_splits s). split_exists w' (p_id s) (sp_t sp)"
      by auto
    have "c' = \<lparr>committed = w', tx = None\<rparr>"
      by (simp add: c' c3 query_COMMIT_def)
    moreover have "\<forall>r \<in> set ys. session_id r = p_id s \<and>
        t_ms r \<in> sp_t ` set (p_splits s) \<and>
        \<not> split_exists (committed c) (p_id s) (t_ms r)"
      using new s1 by (simp add: split_exists_def)
    ultimately have "upsertQ now s (committed c) = Inr d1 \<and>
       c' = \<lparr>committed = w', tx = None\<rparr> \<and>
       sessions w' = sessions d1 \<and> splits w' = splits (committed c) @ ys \<and>
       (\<forall>r \<in> set ys. session_id r = p_id s \<and> t_ms r \<in> sp_t ` set (p_splits s) \<and>
            \<not> split_exists (committed c) (p_id s) (t_ms r)) \<and>
       (\<forall>sp \<in> set (p_splits s). split_exists w' (p_id s) (sp_t sp))"
      using d1 se sp s1 all by auto
    with m show ?thesis by blast
  qed
qed

lemma rollback_conn: "query_ROLLBACK False c = Inr \<lparr>committed = committed c, tx = None\<rparr>"
  by (cases c) (simp add: query_ROLLBACK_def)

lemma connection_lost_conn: "connection_lost c = \<lparr>committed = committed c, tx = None\<rparr>"
  by (cases c) (simp add: connection_lost_def)

lemma upsert_tx_fault:
  assumes "2 \<le> j" "j \<le> 2 + length (p_splits s)" "fails j"
  shows "\<exists>e. fst (upsert_tx fails now s c) = Inl e"
proof (cases "j = 2")
  case True
  with assms show ?thesis by (simp add: upsert_tx_def Let_def)
next
  case False
  with assms have j: "3 \<le> j" "j < 3 + length (p_splits s)" by auto
  then have ne: "p_splits s \<noteq> []" by auto
  show ?thesis
  proof (cases "fails 1 \<or> fails 2")
    case True
    then show ?thesis by (auto simp: upsert_tx_def Let_def)
  next
    case nf: False
    show ?thesis
    proof (cases "query (upsertQ now s) (query_BEGIN c)")
      case (Inl e)
      with nf show ?thesis by (simp add: upsert_tx_def Let_def)
    next
      case (Inr c2)
      from insert_loop_fault[of 3 j "p_splits s" fails "p_id s" c2 0] j assms(3)
      obtain e where "fst (insert_loop fails 3 (p_id s) (p_splits s) c2 0) = Inl e" by auto
      with nf Inr ne show ?thesis
        by (cases "insert_loop fails 3 (p_id s) (p_splits s) c2 0")
           (simp add: upsert_tx_def Let_def)
    qed
  qed
qed

text \<open>
  What the handler does with a request that passes validation and gets its connection,
  when a call of the unit of work throws: a fault at the header upsert or at a split
  insert makes the unit of work throw; the committed database is then the one before the
  request, and the reply is 500 with \<^verbatim>\<open>ok:false\<close> when the ROLLBACK goes through, and is
  missing when the ROLLBACK throws as well.
\<close>

lemma upsert_failure_outcome:
  assumes "SessionUpsertSchema body = Inr s" and "\<not> durationMs s < maxT (p_splits s)"
    and "\<not> fails 0"
  shows "((\<exists>j. 2 \<le> j \<and> j \<le> 2 + length (p_splits s) \<and> fails j) \<longrightarrow>
            (\<exists>e. fst (upsert_tx fails now s c) = Inl e)) \<and>
         (\<forall>e. fst (upsert_tx fails now s c) = Inl e \<longrightarrow>
            post_sessions fails now body c =
              (if fails (4 + length (p_splits s)) then No_Response else Server_Error e,
               \<lparr>committed = committed c, tx = None\<rparr>))"
proof (intro conjI allI impI)
  assume "\<exists>j. 2 \<le> j \<and> j \<le> 2 + length (p_splits s) \<and> fails j"
  then show "\<exists>e. fst (upsert_tx fails now s c) = Inl e"
    using upsert_tx_fault by blast
next
  fix e
  assume f: "fst (upsert_tx fails now s c) = Inl e"
  then obtain c' where u: "upsert_tx fails now s c = (Inl e, c')"
    by (cases "upsert_tx fails now s c") auto
  from upsert_tx_failure[OF u] have "committed c' = committed c" .
  with u assms show "post_sessions fails now body c =
      (if fails (4 + length (p_splits s)) then No_Response else Server_Error e,
       \<lparr>committed = committed c, tx = None\<rparr>)"
    by (simp add: post_sessions_def rollback_conn connection_lost_conn query_ROLLBACK_def)
qed

text \<open>
  Claim C2, evaluated on a lost connection. The database holds session \<^verbatim>\<open>s_1\<close>; a later
  submission of the session passes validation and gets its connection, and the
  connection is lost when the header upsert is sent. The upsert throws, and so does the
  ROLLBACK of the \<^verbatim>\<open>catch\<close> block, which is awaited before the reply: the database is as it
  was, but no reply is sent, where the same failure with a usable connection is answered
  by 500.
\<close>

theorem lost_connection_gets_no_response:
  "post_sessions (lost_from 2) 9 second_body stored_conn = (No_Response, stored_conn) \<and>
   post_sessions (fault_at 2) 9 second_body stored_conn
     = (Server_Error Statement_Failed, stored_conn)"
  by (simp add: post_sessions_def second_body_parse)
     (simp add: second_payload_def tx_defs store_defs)

lemma foldl_max_Max:
  "foldl (\<lambda>m sp. max m (sp_t sp)) a sps = Max (insert a (sp_t ` set sps))"
proof (induction sps arbitrary: a)
  case Nil
  then show ?case by simp
next
  case (Cons x xs)
  have "Max (insert (max a (sp_t x)) (sp_t ` set xs)) = Max (insert a (insert (sp_t x) (sp_t ` set xs)))"
    by (cases "set xs = {}") (simp_all add: max.assoc)
  with Cons show ?case by simp
qed

text \<open>
  Claim C5. For a payload that passes the schema, the handler answers 400 exactly when
  \<^verbatim>\<open>durationMs\<close> is below the greatest offset among the splits of this request (0 when
  there is none); the test does not read the database, and a 400 leaves the connection
  as it was.
\<close>

theorem duration_check:
  "(\<forall>s. SessionUpsertSchema body = Inr s \<longrightarrow>
      (status (fst (post_sessions fails now body c)) = Some 400 \<longleftrightarrow>
         durationMs s < Max (insert 0 (sp_t ` set (p_splits s))))) \<and>
   (status (fst (post_sessions fails now body c)) = Some 400 \<longrightarrow>
      snd (post_sessions fails now body c) = c)"
proof (intro conjI allI impI)
  fix s assume s: "SessionUpsertSchema body = Inr s"
  have m: "maxT (p_splits s) = Max (insert 0 (sp_t ` set (p_splits s)))"
    by (simp add: maxT_def foldl_max_Max)
  show "status (fst (post_sessions fails now body c)) = Some 400 \<longleftrightarrow>
         durationMs s < Max (insert 0 (sp_t ` set (p_splits s)))"
    using s m[symmetric]
    by (cases "upsert_tx fails now s c"; cases "fst (upsert_tx fails now s c)")
       (auto simp: post_sessions_def query_ROLLBACK_def)
next
  assume "status (fst (post_sessions fails now body c)) = Some 400"
  then show "snd (post_sessions fails now body c) = c"
    by (auto simp: post_sessions_def query_ROLLBACK_def split: sum.splits if_splits prod.splits)
qed

theorem duration_check_witness:
  "status (fst (post_sessions no_faults 9 short_body empty_conn)) = Some 400 \<and>
   snd (post_sessions no_faults 9 short_body empty_conn) = empty_conn \<and>
   status (fst (post_sessions no_faults 9 exact_body empty_conn)) \<noteq> Some 400"
proof -
  have a: "durationMs short_payload < Max (insert 0 (sp_t ` set (p_splits short_payload)))"
    by (simp add: short_payload_def exact_payload_def)
  have b: "\<not> durationMs exact_payload < Max (insert 0 (sp_t ` set (p_splits exact_payload)))"
    by (simp add: exact_payload_def)
  from duration_check[of short_body no_faults 9 empty_conn]
       duration_check[of exact_body no_faults 9 empty_conn]
       a b short_body_parse exact_body_parse
  show ?thesis by simp
qed

lemma conn_idle_eq: "tx c = None \<Longrightarrow> \<lparr>committed = committed c, tx = None\<rparr> = c"
  by (cases c) simp

text \<open>A request on an idle connection either leaves it as it was or commits the merge.\<close>

lemma post_sessions_cases:
  assumes idle: "tx c = None"
  obtains
    (unchanged) "snd (post_sessions fails now body c) = c"
      "\<not> ok (fst (post_sessions fails now body c))"
  | (stored) s d1 d2 ys where
      "SessionUpsertSchema body = Inr s"
      "post_sessions fails now body c =
         (Upsert_Ok (p_id s) (length (p_splits s)), \<lparr>committed = d2, tx = None\<rparr>)"
      "upsertQ now s (committed c) = Inr d1"
      "sessions d2 = sessions d1"
      "splits d2 = splits (committed c) @ ys"
      "\<forall>r \<in> set ys. session_id r = p_id s \<and> t_ms r \<in> sp_t ` set (p_splits s) \<and>
            \<not> split_exists (committed c) (p_id s) (t_ms r)"
      "\<forall>sp \<in> set (p_splits s). split_exists d2 (p_id s) (sp_t sp)"
      "\<not> fails 0"
proof (cases "SessionUpsertSchema body")
  case (Inl errs)
  then show ?thesis by (intro unchanged) (simp_all add: post_sessions_def)
next
  case (Inr s)
  show ?thesis
  proof (cases "durationMs s < maxT (p_splits s) \<or> fails 0")
    case True
    with Inr show ?thesis by (intro unchanged) (auto simp: post_sessions_def)
  next
    case False
    obtain r c' where u: "upsert_tx fails now s c = (r, c')"
      by (cases "upsert_tx fails now s c") auto
    show ?thesis
    proof (cases r)
      case (Inl e)
      with u have "committed c' = committed c" by (auto dest: upsert_tx_failure)
      with Inr False u Inl idle show ?thesis
        by (intro unchanged)
           (simp_all add: post_sessions_def query_ROLLBACK_def connection_lost_conn
              conn_idle_eq)
    next
      case r: (Inr m)
      from upsert_tx_success[OF idle u[unfolded r]] obtain d1 d2 ys where
        "m = length (p_splits s)" "upsertQ now s (committed c) = Inr d1"
        "c' = \<lparr>committed = d2, tx = None\<rparr>" "sessions d2 = sessions d1"
        "splits d2 = splits (committed c) @ ys"
        "\<forall>r \<in> set ys. session_id r = p_id s \<and> t_ms r \<in> sp_t ` set (p_splits s) \<and>
            \<not> split_exists (committed c) (p_id s) (t_ms r)"
        "\<forall>sp \<in> set (p_splits s). split_exists d2 (p_id s) (sp_t sp)"
        by blast
      with Inr False u r show ?thesis
        by (intro stored[of s d2 d1 ys]) (simp_all add: post_sessions_def)
    qed
  qed
qed

lemma post_sessions_idle:
  assumes "tx c = None"
  shows "tx (snd (post_sessions fails now body c)) = None"
  using assms
proof (cases rule: post_sessions_cases[of c fails now body])
  case unchanged
  with assms show ?thesis by simp
next
  case (stored s d1 d2 ys)
  then show ?thesis by simp
qed

lemma replay_step:
  assumes "SessionUpsertSchema body = Inr s" and idle: "tx c = None"
    and "\<forall>sp \<in> set (p_splits s). split_exists (committed c) (p_id s) (sp_t sp)"
  shows "splits (committed (snd (post_sessions fails now body c))) = splits (committed c)"
  using idle
proof (cases rule: post_sessions_cases[of c fails now body])
  case unchanged
  then show ?thesis by simp
next
  case (stored s' d1 d2 ys)
  with assms have "s' = s" by simp
  have "r \<notin> set ys" for r
  proof
    assume "r \<in> set ys"
    with stored(6) obtain sp where "sp \<in> set (p_splits s')" "t_ms r = sp_t sp"
      "\<not> split_exists (committed c) (p_id s') (t_ms r)" by auto
    with assms(3) \<open>s' = s\<close> show False by auto
  qed
  then have "ys = []" by (cases ys) auto
  with stored(2,5) show ?thesis by simp
qed

lemma replay_fixed:
  assumes "SessionUpsertSchema body = Inr s"
  shows "tx c = None \<Longrightarrow>
    \<forall>sp \<in> set (p_splits s). split_exists (committed c) (p_id s) (sp_t sp) \<Longrightarrow>
    splits (committed (replay envs body c)) = splits (committed c)"
proof (induction envs arbitrary: c)
  case Nil
  then show ?case by simp
next
  case (Cons env envs)
  obtain fails now where env: "env = (fails, now)" by (cases env)
  let ?c = "snd (post_sessions fails now body c)"
  have s: "splits (committed ?c) = splits (committed c)"
    using replay_step[OF assms Cons.prems] .
  have "tx ?c = None" using Cons.prems(1) by (rule post_sessions_idle)
  moreover have "\<forall>sp \<in> set (p_splits s). split_exists (committed ?c) (p_id s) (sp_t sp)"
    using Cons.prems(2) s by (simp add: split_exists_def)
  ultimately have "splits (committed (replay envs body ?c)) = splits (committed ?c)"
    by (rule Cons.IH)
  with s env show ?case by simp
qed

text \<open>
  Claim C3. A split stored under \<^verbatim>\<open>(session id, t)\<close> is the same row after any later
  upsert, whatever lap, score or note the upsert carries for that offset; and once a body
  has been stored, submitting it again any number of times, with or without failures,
  leaves the table of splits as the first submission left it.
\<close>

theorem duplicate_split_is_noop:
  assumes idle: "tx c = None"
  shows "(\<forall>sid t r. select_split (committed c) sid t = Some r \<longrightarrow>
            select_split (committed (snd (post_sessions fails now body c))) sid t = Some r) \<and>
         (\<forall>i n c1. post_sessions fails now body c = (Upsert_Ok i n, c1) \<longrightarrow>
            (\<forall>envs. splits (committed (replay envs body c1)) = splits (committed c1)))"
  using idle
proof (cases rule: post_sessions_cases[of c fails now body])
  case unchanged
  then show ?thesis by (cases "post_sessions fails now body c") auto
next
  case (stored s d1 d2 ys)
  have "\<forall>envs. splits (committed (replay envs body \<lparr>committed = d2, tx = None\<rparr>)) = splits d2"
    using replay_fixed[OF stored(1), of "\<lparr>committed = d2, tx = None\<rparr>"] stored(7) by simp
  with stored(2,5) show ?thesis
    by (auto simp: select_split_def intro: find_append_Some)
qed

lemma post_second:
  "post_sessions no_faults 9 second_body stored_conn =
     (Upsert_Ok ''s_1'' 2,
      \<lparr>committed =
         \<lparr>sessions = [\<lparr>s_id = ''s_1'', s_player = ''Ana'', s_mode = ''futbol'', started_at = 1,
                        duration_ms = 600, total_score = 25, created_at = 7, updated_at = 9\<rparr>],
          splits = [stored_split,
                    \<lparr>session_id = ''s_1'', t_ms = 300, lap = 2, score = 5, note_txt = None\<rparr>]\<rparr>,
       tx = None\<rparr>)"
  by (simp add: post_sessions_def second_body_parse) (simp add: second_payload_def tx_defs store_defs)

theorem duplicate_split_is_noop_witness:
  "select_split (committed stored_conn) ''s_1'' 200 = Some stored_split \<and>
   select_split (committed (snd (post_sessions no_faults 9 second_body stored_conn))) ''s_1'' 200
     = Some stored_split \<and>
   splits (committed (replay [(no_faults, 10), (fault_at 3, 11), (no_faults, 12)] second_body
      (snd (post_sessions no_faults 9 second_body stored_conn))))
     = splits (committed (snd (post_sessions no_faults 9 second_body stored_conn)))"
proof -
  have a: "tx stored_conn = None" by (simp add: stored_conn_def)
  have b: "select_split (committed stored_conn) ''s_1'' 200 = Some stored_split"
    by (simp add: select_split_def store_defs)
  let ?c1 = "snd (post_sessions no_faults 9 second_body stored_conn)"
  have c: "post_sessions no_faults 9 second_body stored_conn = (Upsert_Ok ''s_1'' 2, ?c1)"
    by (simp add: post_second)
  note noop = duplicate_split_is_noop[OF a, of no_faults 9 second_body]
  from noop b have "select_split (committed ?c1) ''s_1'' 200 = Some stored_split"
    by blast
  moreover from noop c
  have "splits (committed (replay [(no_faults, 10), (fault_at 3, 11), (no_faults, 12)]
          second_body ?c1)) = splits (committed ?c1)"
    by blast
  ultimately show ?thesis using b by blast
qed

lemma find_map_same:
  "\<forall>r. s_id (g r) = s_id r \<Longrightarrow>
   find (\<lambda>r. s_id r = i) (map (\<lambda>r. if s_id r = i then g r else r) xs)
     = map_option g (find (\<lambda>r. s_id r = i) xs)"
  by (induction xs) auto

lemma find_map_other:
  "\<forall>r. s_id (g r) = s_id r \<Longrightarrow> j \<noteq> i \<Longrightarrow>
   find (\<lambda>r. s_id r = j) (map (\<lambda>r. if s_id r = i then g r else r) xs)
     = find (\<lambda>r. s_id r = j) xs"
  by (induction xs) auto

lemma map_s_id_update:
  "\<forall>r. s_id (g r) = s_id r \<Longrightarrow>
   map s_id (map (\<lambda>r. if s_id r = i then g r else r) xs) = map s_id xs"
  by (induction xs) auto

lemma find_SomeD: "find P xs = Some r \<Longrightarrow> r \<in> set xs \<and> P r"
  by (induction xs) (auto split: if_splits)

lemma select_session_exists: "select_session d i = Some r \<Longrightarrow> session_exists d i"
  by (auto simp: select_session_def session_exists_def dest: find_SomeD)

lemma upsertQ_existing:
  assumes "select_session d (p_id s) = Some old" and "upsertQ now s d = Inr d1"
  shows "select_session d1 (p_id s) =
           Some (old\<lparr>s_player := p_player s, s_mode := p_mode s,
                     started_at := of_int (startedAt s) / 1000,
                     duration_ms := durationMs s, total_score := totalScore s,
                     updated_at := now\<rparr>)"
    and "j \<noteq> p_id s \<Longrightarrow> select_session d1 j = select_session d j"
    and "map s_id (sessions d1) = map s_id (sessions d)"
proof -
  let ?g = "\<lambda>r. r\<lparr>s_player := p_player s, s_mode := p_mode s,
                     started_at := of_int (startedAt s) / 1000,
                     duration_ms := durationMs s, total_score := totalScore s,
                     updated_at := now\<rparr>"
  have g: "\<forall>r. s_id (?g r) = s_id r" by simp
  from assms have d1: "sessions d1 = map (\<lambda>r. if s_id r = p_id s then ?g r else r) (sessions d)"
    by (auto simp: upsertQ_def to_timestamp_def split: if_splits option.splits
        dest: select_session_exists)
  show "select_session d1 (p_id s) =
           Some (old\<lparr>s_player := p_player s, s_mode := p_mode s,
                     started_at := of_int (startedAt s) / 1000,
                     duration_ms := durationMs s, total_score := totalScore s,
                     updated_at := now\<rparr>)"
    using assms(1) unfolding select_session_def d1 find_map_same[OF g]
    by simp
  show "j \<noteq> p_id s \<Longrightarrow> select_session d1 j = select_session d j"
    unfolding select_session_def d1 by (rule find_map_other[OF g])
  show "map s_id (sessions d1) = map s_id (sessions d)"
    unfolding d1 by (rule map_s_id_update[OF g])
qed

text \<open>
  Claim C4. When the session id of a successful upsert already has a stored header, the
  header stored afterwards has the payload's player, mode, start time, duration and
  total score, the update timestamp of this request, and the creation timestamp and id
  it had before; the headers of all other sessions are as they were.
\<close>

theorem header_overwrite:
  assumes idle: "tx c = None"
    and parse: "SessionUpsertSchema body = Inr s"
    and old: "select_session (committed c) (p_id s) = Some old"
    and resp: "post_sessions fails now body c = (Upsert_Ok i n, c')"
  shows "(\<exists>new. select_session (committed c') (p_id s) = Some new \<and>
            s_id new = s_id old \<and> s_player new = p_player s \<and> s_mode new = p_mode s \<and>
            started_at new = of_int (startedAt s) / 1000 \<and>
            duration_ms new = durationMs s \<and> total_score new = totalScore s \<and>
            updated_at new = now \<and> created_at new = created_at old) \<and>
         (\<forall>j. j \<noteq> p_id s \<longrightarrow>
            select_session (committed c') j = select_session (committed c) j) \<and>
         map s_id (sessions (committed c')) = map s_id (sessions (committed c))"
  using idle
proof (cases rule: post_sessions_cases[of c fails now body])
  case unchanged
  with resp show ?thesis by simp
next
  case (stored s' d1 d2 ys)
  with parse \<open>post_sessions fails now body c = (Upsert_Ok i n, c')\<close> have s': "s' = s" and c': "c' = \<lparr>committed = d2, tx = None\<rparr>" by simp_all
  note u = upsertQ_existing[OF old stored(3)[unfolded s']]
  have sel: "select_session d2 j = select_session d1 j" for j
    using stored(4) by (simp add: select_session_def)
  show ?thesis
    using u(1) u(2) u(3) stored(4) by (simp add: c' sel)
qed

theorem header_overwrite_witness:
  "select_session (committed stored_conn) ''s_1'' = Some stored_session \<and>
   select_session (committed (snd (post_sessions no_faults 9 second_body stored_conn))) ''s_1'' =
     Some \<lparr>s_id = ''s_1'', s_player = ''Ana'', s_mode = ''futbol'', started_at = 1,
           duration_ms = 600, total_score = 25, created_at = 7, updated_at = 9\<rparr>"
proof -
  have a: "tx stored_conn = None" by (simp add: stored_conn_def)
  have b: "select_session (committed stored_conn) (p_id second_payload) = Some stored_session"
    by (simp add: select_session_def store_defs second_payload_def)
  let ?c1 = "snd (post_sessions no_faults 9 second_body stored_conn)"
  have c: "post_sessions no_faults 9 second_body stored_conn = (Upsert_Ok ''s_1'' 2, ?c1)"
    by (simp add: post_second)
  from header_overwrite[OF a second_body_parse b c]
  obtain new where "select_session (committed ?c1) (p_id second_payload) = Some new"
    "s_id new = s_id stored_session" "s_player new = p_player second_payload"
    "s_mode new = p_mode second_payload"
    "started_at new = of_int (startedAt second_payload) / 1000"
    "duration_ms new = durationMs second_payload" "total_score new = totalScore second_payload"
    "updated_at new = 9" "created_at new = created_at stored_session"
    by blast
  then have "select_session (committed ?c1) ''s_1'' =
     Some \<lparr>s_id = ''s_1'', s_player = ''Ana'', s_mode = ''futbol'', started_at = 1,
           duration_ms = 600, total_score = 25, created_at = 7, updated_at = 9\<rparr>"
    by (cases new) (simp add: second_payload_def stored_session_def)
  with b show ?thesis by (simp add: second_payload_def)
qed

text \<open>
  Claim C1, evaluated on a resubmission. The database already holds session \<^verbatim>\<open>s_1\<close> with
  its split at offset 200; the same body is sent again. The insert of the split is
  skipped (the table of splits is unchanged), and the response still reports
  \<^verbatim>\<open>splits_inserted: 1\<close>: the counter is incremented after every insert statement,
  whether or not the statement stored a row.
\<close>

theorem splits_inserted_counts_attempts:
  "fst (post_sessions no_faults 8 first_body stored_conn) = Upsert_Ok ''s_1'' 1 \<and>
   splits (committed (snd (post_sessions no_faults 8 first_body stored_conn)))
     = splits (committed stored_conn)"
  by (simp add: post_sessions_def first_body_parse) (simp add: first_payload_def tx_defs store_defs)

lemma z_enum_mode_Some:
  "z_enum_mode v = Some m \<Longrightarrow> v = Some (JStr m) \<and> (m = ''carreras'' \<or> m = ''futbol'')"
  by (auto simp: z_enum_mode_def split: option.splits json.splits if_splits)











lemma schema_issue_iff:
  "(\<exists>errs. SessionUpsertSchema (JObj fs) = Inl errs \<and> k \<in> set errs) \<longleftrightarrow>
   k \<in> set (issue ''id'' (z_string_min 3 (get_prop fs ''id''))
           @ issue ''player'' (z_string_min 1 (get_prop fs ''player''))
           @ issue ''mode'' (z_enum_mode (get_prop fs ''mode''))
           @ issue ''startedAt'' (z_int_nonnegative (get_prop fs ''startedAt''))
           @ issue ''durationMs'' (z_int_nonnegative (get_prop fs ''durationMs''))
           @ issue ''totalScore'' (z_number (get_prop fs ''totalScore''))
           @ issue ''splits'' (z_splits (get_prop fs ''splits'')))"
  by (simp add: SessionUpsertSchema_def Let_def issue_def split: option.splits)

lemma z_enum_mode_None:
  "z_enum_mode v = None \<longleftrightarrow> v \<notin> {Some (JStr ''carreras''), Some (JStr ''futbol'')}"
  by (auto simp: z_enum_mode_def split: option.splits json.splits)

text \<open>
  Claim C6, amended. The schema reports an issue on \<^verbatim>\<open>mode\<close> exactly when the property
  is not one of the strings \<^verbatim>\<open>carreras\<close> and \<^verbatim>\<open>futbol\<close>, and a parsed payload carries
  one of these two.
\<close>

theorem mode_enumeration:
  "((\<exists>errs. SessionUpsertSchema (JObj fs) = Inl errs \<and> ''mode'' \<in> set errs) \<longleftrightarrow>
      get_prop fs ''mode'' \<notin> {Some (JStr ''carreras''), Some (JStr ''futbol'')}) \<and>
   (\<forall>s. SessionUpsertSchema (JObj fs) = Inr s \<longrightarrow>
      get_prop fs ''mode'' = Some (JStr (p_mode s)) \<and>
      (p_mode s = ''carreras'' \<or> p_mode s = ''futbol''))"
proof
  have "z_enum_mode (get_prop fs ''mode'') = None \<longleftrightarrow>
      ''mode'' \<in> set (issue ''mode'' (z_enum_mode (get_prop fs ''mode'')))"
    by (cases "z_enum_mode (get_prop fs ''mode'')") (simp_all add: issue_def)
  then show "(\<exists>errs. SessionUpsertSchema (JObj fs) = Inl errs \<and> ''mode'' \<in> set errs) \<longleftrightarrow>
      get_prop fs ''mode'' \<notin> {Some (JStr ''carreras''), Some (JStr ''futbol'')}"
    unfolding schema_issue_iff z_enum_mode_None[symmetric]
    by (auto simp: issue_def split: option.splits)
next
  show "\<forall>s. SessionUpsertSchema (JObj fs) = Inr s \<longrightarrow>
      get_prop fs ''mode'' = Some (JStr (p_mode s)) \<and>
      (p_mode s = ''carreras'' \<or> p_mode s = ''futbol'')"
    by (auto simp: SessionUpsertSchema_def Let_def split: option.splits dest: z_enum_mode_Some)
qed

theorem mode_enumeration_witness:
  "(\<exists>errs. SessionUpsertSchema racing_body = Inl errs \<and> ''mode'' \<in> set errs) \<and>
   \<not> (\<exists>errs. SessionUpsertSchema carreras_body = Inl errs \<and> ''mode'' \<in> set errs)"
proof -
  have a: "get_prop (mk_header ''s_4'' ''Mati'' ''racing'' 500 10 @ [(''splits'', JArr [])]) ''mode''
      \<notin> {Some (JStr ''carreras''), Some (JStr ''futbol'')}"
    by (simp add: get_prop_def mk_header_def)
  have b: "\<not> get_prop (mk_header ''s_4'' ''Mati'' ''carreras'' 500 10 @ [(''splits'', JArr [])]) ''mode''
      \<notin> {Some (JStr ''carreras''), Some (JStr ''futbol'')}"
    by (simp add: get_prop_def mk_header_def)
  from a b
    mode_enumeration[of "mk_header ''s_4'' ''Mati'' ''racing'' 500 10 @ [(''splits'', JArr [])]"]
    mode_enumeration[of "mk_header ''s_4'' ''Mati'' ''carreras'' 500 10 @ [(''splits'', JArr [])]"]
  show ?thesis unfolding racing_body_def carreras_body_def mk_body_def by blast
qed

text \<open>
  Claim C6 as stated: the mode \<^verbatim>\<open>racing\<close> is rejected with an issue on \<^verbatim>\<open>mode\<close>, and the
  mode \<^verbatim>\<open>carreras\<close>, which is neither \<^verbatim>\<open>racing\<close> nor \<^verbatim>\<open>soccer\<close>, is accepted.
\<close>

theorem racing_mode_counterexample:
  "fst (post_sessions no_faults 9 racing_body empty_conn) = Bad_Request_Schema [''mode''] \<and>
   fst (post_sessions no_faults 9 carreras_body empty_conn) = Upsert_Ok ''s_4'' 0"
proof -
  have "SessionUpsertSchema racing_body = Inl [''mode'']"
    by (simp add: racing_body_def schema_defs)
  moreover have "SessionUpsertSchema carreras_body =
      Inr \<lparr>p_id = ''s_4'', p_player = ''Mati'', p_mode = ''carreras'', startedAt = 1000,
          durationMs = 500, totalScore = 10, p_splits = []\<rparr>"
    by (simp add: carreras_body_def schema_defs)
  ultimately show ?thesis
    by (simp add: post_sessions_def) (simp add: tx_defs store_defs)
qed

section \<open>Properties of the gate\<close>

lemma data_route_not_public:
  "data_route m p = Some e \<Longrightarrow>
   \<not> (m = ''GET'' \<and> p = ''/api/health'') \<and> \<not> (m = ''GET'' \<and> p = ''/api/version'') \<and>
   under_api p \<and> e \<noteq> Health \<and> e \<noteq> Version"
proof -
  assume r: "data_route m p = Some e"
  have "take 5 p = ''/api/''" if "take 14 p = ''/api/sessions/''"
  proof -
    have "take 5 p = take 5 (take 14 p)" by simp
    with that show ?thesis by simp
  qed
  with r show ?thesis
    by (auto simp: data_route_def under_api_def split: if_splits)
qed

text \<open>
  Claim C9. With a secret configured, a request to a data route is served exactly when
  its \<^verbatim>\<open>x-api-key\<close> header equals the secret, and is answered 401 otherwise; with no
  secret configured it is served; a 401 under \<^verbatim>\<open>/api\<close> is only ever given for a configured
  secret that the header does not equal; the health and version routes are served
  whatever the secret and the header.
\<close>

theorem access_gate:
  "(data_route (r_method req) (r_path req) = Some e \<longrightarrow>
      (api_key \<noteq> [] \<longrightarrow>
         (app api_key req = Served e \<longleftrightarrow> x_api_key req = Some api_key) \<and>
         (app api_key req = Rejected_401 \<longleftrightarrow> x_api_key req \<noteq> Some api_key)) \<and>
      (api_key = [] \<longrightarrow> app api_key req = Served e)) \<and>
   (under_api (r_path req) \<and> app api_key req = Rejected_401 \<longrightarrow>
      api_key \<noteq> [] \<and> x_api_key req \<noteq> Some api_key) \<and>
   app api_key \<lparr>r_method = ''GET'', r_path = ''/api/health'', x_api_key = k\<rparr> = Served Health \<and>
   app api_key \<lparr>r_method = ''GET'', r_path = ''/api/version'', x_api_key = k\<rparr> = Served Version"
proof (intro conjI impI)
  assume r: "data_route (r_method req) (r_path req) = Some e" and k: "api_key \<noteq> []"
  note np = data_route_not_public[OF r]
  from r np k show "app api_key req = Served e \<longleftrightarrow> x_api_key req = Some api_key"
    by (auto simp: app_def requireApiKey_def)
next
  assume r: "data_route (r_method req) (r_path req) = Some e" and k: "api_key \<noteq> []"
  note np = data_route_not_public[OF r]
  from r np k show "app api_key req = Rejected_401 \<longleftrightarrow> x_api_key req \<noteq> Some api_key"
    by (auto simp: app_def requireApiKey_def)
next
  assume r: "data_route (r_method req) (r_path req) = Some e" and k: "api_key = []"
  note np = data_route_not_public[OF r]
  from r np k show "app api_key req = Served e"
    by (auto simp: app_def requireApiKey_def)
next
  assume a: "under_api (r_path req) \<and> app api_key req = Rejected_401"
  then show "api_key \<noteq> []"
    by (auto simp: app_def requireApiKey_def split: if_splits option.splits)
next
  assume a: "under_api (r_path req) \<and> app api_key req = Rejected_401"
  then show "x_api_key req \<noteq> Some api_key"
    by (auto simp: app_def requireApiKey_def split: if_splits option.splits)
next
  show "app api_key \<lparr>r_method = ''GET'', r_path = ''/api/health'', x_api_key = k\<rparr> = Served Health"
    by (simp add: app_def)
next
  show "app api_key \<lparr>r_method = ''GET'', r_path = ''/api/version'', x_api_key = k\<rparr> = Served Version"
    by (simp add: app_def)
qed

theorem access_gate_witness:
  "app ''secret'' (example_request ''POST'' ''/api/sessions'' (Some ''secret'')) = Served Upsert_Session \<and>
   app ''secret'' (example_request ''POST'' ''/api/sessions'' (Some ''Secret'')) = Rejected_401 \<and>
   app ''secret'' (example_request ''GET'' ''/api/leaderboard'' None) = Rejected_401 \<and>
   app [] (example_request ''GET'' ''/api/leaderboard'' None) = Served Leaderboard \<and>
   app ''secret'' (example_request ''GET'' ''/api/health'' None) = Served Health"
proof -
  have a: "data_route ''POST'' ''/api/sessions'' = Some Upsert_Session"
    and b: "data_route ''GET'' ''/api/leaderboard'' = Some Leaderboard"
    by (simp_all add: data_route_def)
  from access_gate[of "example_request ''POST'' ''/api/sessions'' (Some ''secret'')" Upsert_Session "''secret''" None]
       access_gate[of "example_request ''POST'' ''/api/sessions'' (Some ''Secret'')" Upsert_Session "''secret''" None]
       access_gate[of "example_request ''GET'' ''/api/leaderboard'' None" Leaderboard "''secret''" None]
       access_gate[of "example_request ''GET'' ''/api/leaderboard'' None" Leaderboard "[]" None]
       a b
  show ?thesis by (simp add: example_request_def)
qed

section \<open>Numbers of the query string\<close>

lemma bit_length_le: "a < 2 ^ k \<Longrightarrow> bit_length a \<le> k"
proof (induction k arbitrary: a)
  case 0
  then show ?case by (simp add: bit_length.simps)
next
  case (Suc k)
  then have "a div 2 < 2 ^ k" by auto
  then have "bit_length (a div 2) \<le> k" by (rule Suc.IH)
  then show ?case by (subst bit_length.simps) simp
qed

lemma round53_small: "a < 2 ^ 53 \<Longrightarrow> round53 a = a"
  using bit_length_le[of a 53] by (simp add: round53_def)

lemma to_number_small: "\<bar>n\<bar> < 2 ^ 53 \<Longrightarrow> to_number n = Num n"
proof -
  assume a: "\<bar>n\<bar> < 2 ^ 53"
  then have r: "round53 \<bar>n\<bar> = \<bar>n\<bar>" by (rule round53_small)
  have "(2::int) ^ 53 \<le> 2 ^ 1024" by (rule power_increasing) simp_all
  with a have "\<not> 2 ^ 1024 \<le> \<bar>n\<bar>" by linarith
  with r show ?thesis by (auto simp: to_number_def Let_def)
qed

lemma parse_examples:
  "parseInt ''1'' = Num 1" "parseInt ''2'' = Num 2" "parseInt ''10'' = Num 10"
  "parseInt ''25'' = Num 25" "parseInt ''-5'' = Num (- 5)" "parseInt ''7px'' = Num 7"
  "parseInt ''abc'' = NaN"
  by (simp_all add: parseInt_def is_space_def is_digit_def digits_value_def to_number_small)


lemma clamp_param:
  "Math_min hi (Math_max 1 (int_param v dflt n)) =
     (case parseInt (case v of None \<Rightarrow> dflt | Some str \<Rightarrow> str) of
        NaN \<Rightarrow> Num (min hi (max 1 n))
      | Num k \<Rightarrow> Num (min hi (max 1 (if k = 0 then n else k)))
      | Infinity \<Rightarrow> Num hi
      | Minus_Infinity \<Rightarrow> Num (min hi 1))"
  by (simp add: Math_min_def Math_max_def int_param_def split: number.splits)






section \<open>Properties of the list\<close>







lemma pg_param_str: "pg_param (str_param v) \<longleftrightarrow> (\<forall>str. v = Some str \<longrightarrow> pg_text str)"
  by (cases v) (auto simp: pg_param_def str_param_def pg_text_def)














section \<open>Properties of the leaderboard\<close>

lemma best_of_Nil: "best_of [] k = None"
  by (simp add: best_of_def)

lemma best_of_Cons:
  "best_of (g # gs) k = (if board_key g = k then Some (best_score g) else best_of gs k)"
  by (simp add: best_of_def)

lemma add_row_keys:
  "map board_key (add_row r gs) =
     (if session_key r \<in> set (map board_key gs) then map board_key gs
      else map board_key gs @ [session_key r])"
  by (induction gs) (auto simp: board_key_def session_key_def)

lemma add_row_best:
  "best_of (add_row r gs) k =
     (if k = session_key r
      then Some (case best_of gs k of None \<Rightarrow> total_score r | Some b \<Rightarrow> max b (total_score r))
      else best_of gs k)"
  by (induction gs) (auto simp: best_of_Cons best_of_Nil board_key_def session_key_def)

lemma best_of_member:
  "distinct (map board_key gs) \<Longrightarrow> g \<in> set gs \<Longrightarrow> best_of gs (board_key g) = Some (best_score g)"
  by (induction gs) (auto simp: best_of_Cons)

lemma scores_of_snoc:
  "scores_of (rows @ [r]) k =
     (if session_key r = k then insert (total_score r) (scores_of rows k) else scores_of rows k)"
  by (auto simp: scores_of_def)

lemma scores_of_empty: "scores_of rows k = {} \<longleftrightarrow> k \<notin> session_key ` set rows"
  by (auto simp: scores_of_def)

lemma finite_scores_of: "finite (scores_of rows k)"
  by (simp add: scores_of_def)

lemma group_snoc:
  "group_by_player_mode (rows @ [r]) = add_row r (group_by_player_mode rows)"
  by (simp add: group_by_player_mode_def)

lemma group_keys:
  "distinct (map board_key (group_by_player_mode rows)) \<and>
   set (map board_key (group_by_player_mode rows)) = session_key ` set rows"
proof (induction rows rule: rev_induct)
  case Nil
  then show ?case by (simp add: group_by_player_mode_def)
next
  case (snoc r rows)
  then show ?case by (auto simp: group_snoc add_row_keys)
qed

lemma group_best:
  "best_of (group_by_player_mode rows) k =
     (if k \<in> session_key ` set rows then Some (Max (scores_of rows k)) else None)"
proof (induction rows rule: rev_induct)
  case Nil
  then show ?case by (simp add: group_by_player_mode_def best_of_Nil)
next
  case (snoc r rows)
  show ?case
  proof (cases "k = session_key r")
    case False
    with snoc show ?thesis by (auto simp: group_snoc add_row_best scores_of_snoc)
  next
    case True
    show ?thesis
    proof (cases "k \<in> session_key ` set rows")
      case False
      then have "scores_of rows k = {}" by (simp add: scores_of_empty)
      with True False snoc show ?thesis
        by (simp add: group_snoc add_row_best scores_of_snoc)
    next
      case in_rows: True
      then have ne: "scores_of rows k \<noteq> {}" by (simp add: scores_of_empty)
      have "Max (insert (total_score r) (scores_of rows k)) = max (Max (scores_of rows k)) (total_score r)"
        using ne finite_scores_of[of rows k] by (simp add: max.commute)
      with True in_rows snoc show ?thesis
        by (simp add: group_snoc add_row_best scores_of_snoc)
    qed
  qed
qed

lemma group_member:
  assumes "g \<in> set (group_by_player_mode rows)"
  shows "board_key g \<in> session_key ` set rows \<and> best_score g = Max (scores_of rows (board_key g))"
proof -
  from group_keys[of rows] assms
  have "best_of (group_by_player_mode rows) (board_key g) = Some (best_score g)"
    by (auto intro: best_of_member)
  then show ?thesis
    by (auto simp: group_best split: if_splits)
qed

lemma sorted_board:
  "sorted_wrt (\<lambda>a b. best_score a \<ge> best_score b) (sort_key (\<lambda>g. - best_score g) gs)"
proof -
  have "sorted (map (\<lambda>g. - best_score g) (sort_key (\<lambda>g. - best_score g) gs))"
    by (rule sorted_sort_key)
  then show ?thesis by (simp add: sorted_map)
qed

lemma board_rows_set:
  "set (board_rows mode d) = {r \<in> set (sessions d). \<forall>v. mode = Some v \<and> v \<noteq> [] \<longrightarrow> s_mode r = v}"
  by (cases mode) (auto simp: board_rows_def str_param_def)

lemma board_limit_cases:
  "\<exists>n. board_limit v = Num n \<and> 1 \<le> n \<and> n \<le> 100 \<and>
     (v = None \<or> (\<exists>str. v = Some str \<and> (parseInt str = NaN \<or> parseInt str = Num 0))
        \<longrightarrow> n = 10) \<and>
     (\<forall>str k. v = Some str \<and> parseInt str = Num k \<and> k \<noteq> 0 \<longrightarrow> n = min 100 (max 1 k)) \<and>
     (\<forall>str. v = Some str \<and> parseInt str = Infinity \<longrightarrow> n = 100) \<and>
     (\<forall>str. v = Some str \<and> parseInt str = Minus_Infinity \<longrightarrow> n = 1)"
  unfolding board_limit_def clamp_param
  by (cases v) (auto simp: parse_examples split: number.splits)

lemma get_leaderboard_Some:
  "get_leaderboard fails limit mode d = Some res \<longleftrightarrow>
     (\<exists>n. board_limit limit = Num n \<and> \<not> fails \<and> pg_param (str_param mode) \<and>
        res = take (nat n)
          (sort_key (\<lambda>g. - best_score g) (group_by_player_mode (board_rows mode d))))"
  by (auto simp: get_leaderboard_def split: number.splits)

lemma leaderboard_answered:
  "get_leaderboard fails limit mode d \<noteq> None \<longleftrightarrow>
     \<not> fails \<and> (\<forall>v. mode = Some v \<longrightarrow> pg_text v)"
proof -
  from board_limit_cases[of limit] obtain n where "board_limit limit = Num n" by blast
  then show ?thesis by (simp add: get_leaderboard_def pg_param_str)
qed

lemma leaderboard_props:
  assumes "get_leaderboard fails limit mode d = Some res"
  defines "rows \<equiv> board_rows mode d"
  shows "distinct (map board_key res)"
    and "\<forall>g \<in> set res. board_key g \<in> session_key ` set rows \<and>
           best_score g = Max (scores_of rows (board_key g))"
    and "sorted_wrt (\<lambda>a b. best_score a \<ge> best_score b) res"
    and "\<exists>n. board_limit limit = Num n \<and>
           length res = min (nat n) (card (session_key ` set rows))"
    and "\<forall>k \<in> session_key ` set rows. k \<notin> board_key ` set res \<longrightarrow>
           (\<forall>g \<in> set res. Max (scores_of rows k) \<le> best_score g)"
proof -
  define G where "G = group_by_player_mode rows"
  define S where "S = sort_key (\<lambda>g. - best_score g) G"
  from assms(1) obtain k where k: "board_limit limit = Num k"
    and res0: "res = take (nat k) (sort_key (\<lambda>g. - best_score g) (group_by_player_mode (board_rows mode d)))"
    unfolding get_leaderboard_Some by blast
  define n where "n = nat k"
  have res: "res = take n S"
    by (simp add: res0 S_def G_def rows_def n_def)
  have dG: "distinct (map board_key G)" and kG: "set (map board_key G) = session_key ` set rows"
    using group_keys[of rows] by (simp_all add: G_def)
  have setS: "set S = set G" by (simp add: S_def)
  have dS: "distinct (map board_key S)"
    using dG setS by (simp add: distinct_map S_def)
  have "distinct (take n (map board_key S))" using dS by (rule distinct_take)
  then show "distinct (map board_key res)" by (simp add: res take_map)
  have sub: "set res \<subseteq> set G" using set_take_subset[of n S] by (simp add: res setS)
  show "\<forall>g \<in> set res. board_key g \<in> session_key ` set rows \<and>
           best_score g = Max (scores_of rows (board_key g))"
    using sub group_member[of _ rows] by (auto simp: G_def)
  have sS: "sorted_wrt (\<lambda>a b. best_score a \<ge> best_score b) S"
    unfolding S_def by (rule sorted_board)
  then show "sorted_wrt (\<lambda>a b. best_score a \<ge> best_score b) res"
    unfolding res by (rule sorted_wrt_take)
  have "length G = card (set (map board_key G))"
    using distinct_card[OF dG] by simp
  then have "length S = card (session_key ` set rows)" by (simp only: kG S_def length_sort)
  then have "length res = min (nat k) (card (session_key ` set rows))"
    by (simp add: res n_def min.commute)
  with k show "\<exists>n. board_limit limit = Num n \<and>
           length res = min (nat n) (card (session_key ` set rows))"
    by blast
  show "\<forall>k \<in> session_key ` set rows. k \<notin> board_key ` set res \<longrightarrow>
           (\<forall>g \<in> set res. Max (scores_of rows k) \<le> best_score g)"
  proof (intro ballI impI)
    fix k g assume k: "k \<in> session_key ` set rows" and out: "k \<notin> board_key ` set res"
      and g: "g \<in> set res"
    from k kG have "k \<in> board_key ` set G" by simp
    then obtain h where h: "h \<in> set G" "board_key h = k" by auto
    with out have "h \<notin> set res" by auto
    moreover have "set S = set (take n S) \<union> set (drop n S)"
      using set_append[of "take n S" "drop n S"] by simp
    ultimately have hd: "h \<in> set (drop n S)" using h(1) setS res by auto
    have "sorted_wrt (\<lambda>a b. best_score a \<ge> best_score b) (take n S @ drop n S)"
      using sS by simp
    then have "best_score h \<le> best_score g"
      using g hd unfolding res sorted_wrt_append by blast
    moreover have "best_score h = Max (scores_of rows k)"
      using group_member[of h rows] h by (simp add: G_def)
    ultimately show "Max (scores_of rows k) \<le> best_score g" by simp
  qed
qed

text \<open>The same, read off the request and the stored sessions.\<close>

lemma leaderboard_request_props:
  assumes "get_leaderboard fails limit mode d = Some res"
  shows "distinct (map (\<lambda>g. (b_player g, b_mode g)) res)"
    and "\<forall>g \<in> set res.
          (\<forall>v. mode = Some v \<and> v \<noteq> [] \<longrightarrow> b_mode g = v) \<and>
          (\<exists>r \<in> set (sessions d). s_player r = b_player g \<and> s_mode r = b_mode g) \<and>
          best_score g = Max (total_score `
             {r \<in> set (sessions d). s_player r = b_player g \<and> s_mode r = b_mode g})"
    and "sorted_wrt (\<lambda>a b. best_score a \<ge> best_score b) res"
    and "\<exists>n. length res = min (nat n) (card ((\<lambda>r. (s_player r, s_mode r)) `
              {r \<in> set (sessions d). \<forall>v. mode = Some v \<and> v \<noteq> [] \<longrightarrow> s_mode r = v})) \<and>
           1 \<le> n \<and> n \<le> 100 \<and>
           (limit = None \<or>
            (\<exists>str. limit = Some str \<and> (parseInt str = NaN \<or> parseInt str = Num 0))
              \<longrightarrow> n = 10) \<and>
           (\<forall>str k. limit = Some str \<and> parseInt str = Num k \<and> k \<noteq> 0
              \<longrightarrow> n = min 100 (max 1 k)) \<and>
           (\<forall>str. limit = Some str \<and> parseInt str = Infinity \<longrightarrow> n = 100) \<and>
           (\<forall>str. limit = Some str \<and> parseInt str = Minus_Infinity \<longrightarrow> n = 1)"
    and "\<forall>r \<in> set (sessions d).
          (\<forall>v. mode = Some v \<and> v \<noteq> [] \<longrightarrow> s_mode r = v) \<and>
          (s_player r, s_mode r) \<notin> (\<lambda>g. (b_player g, b_mode g)) ` set res \<longrightarrow>
          (\<forall>g \<in> set res. total_score r \<le> best_score g)"
proof -
  define rows where "rows = board_rows mode d"
  note props = leaderboard_props[OF assms, folded rows_def]
  have rows: "set rows = {r \<in> set (sessions d). \<forall>v. mode = Some v \<and> v \<noteq> [] \<longrightarrow> s_mode r = v}"
    unfolding rows_def by (rule board_rows_set)
  have bk: "board_key = (\<lambda>g. (b_player g, b_mode g))"
    by (simp add: fun_eq_iff board_key_def)
  have sk: "session_key = (\<lambda>r. (s_player r, s_mode r))"
    by (simp add: fun_eq_iff session_key_def)
  show "distinct (map (\<lambda>g. (b_player g, b_mode g)) res)"
    using props(1) unfolding bk .
  show "sorted_wrt (\<lambda>a b. best_score a \<ge> best_score b) res" by (rule props(3))
  show "\<forall>g \<in> set res.
          (\<forall>v. mode = Some v \<and> v \<noteq> [] \<longrightarrow> b_mode g = v) \<and>
          (\<exists>r \<in> set (sessions d). s_player r = b_player g \<and> s_mode r = b_mode g) \<and>
          best_score g = Max (total_score `
             {r \<in> set (sessions d). s_player r = b_player g \<and> s_mode r = b_mode g})"
  proof
    fix g assume g: "g \<in> set res"
    with props(2) have k: "board_key g \<in> session_key ` set rows"
      and b: "best_score g = Max (scores_of rows (board_key g))" by auto
    from k obtain r where r: "r \<in> set rows" "board_key g = session_key r" by auto
    then have rs: "r \<in> set (sessions d)" "s_player r = b_player g" "s_mode r = b_mode g"
      and flt: "\<forall>v. mode = Some v \<and> v \<noteq> [] \<longrightarrow> s_mode r = v"
      unfolding rows by (simp_all add: board_key_def session_key_def)
    from flt rs(3) have m: "\<forall>v. mode = Some v \<and> v \<noteq> [] \<longrightarrow> b_mode g = v" by simp
    then have "{r \<in> set rows. session_key r = board_key g}
        = {r \<in> set (sessions d). s_player r = b_player g \<and> s_mode r = b_mode g}"
      unfolding rows by (auto simp: board_key_def session_key_def)
    then have "scores_of rows (board_key g) = total_score `
             {r \<in> set (sessions d). s_player r = b_player g \<and> s_mode r = b_mode g}"
      by (simp add: scores_of_def)
    with b m rs show "(\<forall>v. mode = Some v \<and> v \<noteq> [] \<longrightarrow> b_mode g = v) \<and>
          (\<exists>r \<in> set (sessions d). s_player r = b_player g \<and> s_mode r = b_mode g) \<and>
          best_score g = Max (total_score `
             {r \<in> set (sessions d). s_player r = b_player g \<and> s_mode r = b_mode g})"
      by auto
  qed
  from props(4) obtain n where n: "board_limit limit = Num n"
    and len: "length res = min (nat n) (card (session_key ` set rows))" by blast
  from board_limit_cases[of limit] n have lc: "1 \<le> n \<and> n \<le> 100 \<and>
           (limit = None \<or>
            (\<exists>str. limit = Some str \<and> (parseInt str = NaN \<or> parseInt str = Num 0))
              \<longrightarrow> n = 10) \<and>
           (\<forall>str k. limit = Some str \<and> parseInt str = Num k \<and> k \<noteq> 0
              \<longrightarrow> n = min 100 (max 1 k)) \<and>
           (\<forall>str. limit = Some str \<and> parseInt str = Infinity \<longrightarrow> n = 100) \<and>
           (\<forall>str. limit = Some str \<and> parseInt str = Minus_Infinity \<longrightarrow> n = 1)"
    by auto
  from len have len': "length res = min (nat n) (card ((\<lambda>r. (s_player r, s_mode r)) `
              {r \<in> set (sessions d). \<forall>v. mode = Some v \<and> v \<noteq> [] \<longrightarrow> s_mode r = v}))"
    unfolding sk rows .
  show "\<exists>n. length res = min (nat n) (card ((\<lambda>r. (s_player r, s_mode r)) `
              {r \<in> set (sessions d). \<forall>v. mode = Some v \<and> v \<noteq> [] \<longrightarrow> s_mode r = v})) \<and>
           1 \<le> n \<and> n \<le> 100 \<and>
           (limit = None \<or>
            (\<exists>str. limit = Some str \<and> (parseInt str = NaN \<or> parseInt str = Num 0))
              \<longrightarrow> n = 10) \<and>
           (\<forall>str k. limit = Some str \<and> parseInt str = Num k \<and> k \<noteq> 0
              \<longrightarrow> n = min 100 (max 1 k)) \<and>
           (\<forall>str. limit = Some str \<and> parseInt str = Infinity \<longrightarrow> n = 100) \<and>
           (\<forall>str. limit = Some str \<and> parseInt str = Minus_Infinity \<longrightarrow> n = 1)"
    by (rule exI[of _ n]) (rule conjI[OF len' lc])
  show "\<forall>r \<in> set (sessions d).
          (\<forall>v. mode = Some v \<and> v \<noteq> [] \<longrightarrow> s_mode r = v) \<and>
          (s_player r, s_mode r) \<notin> (\<lambda>g. (b_player g, b_mode g)) ` set res \<longrightarrow>
          (\<forall>g \<in> set res. total_score r \<le> best_score g)"
  proof (intro ballI impI)
    fix r g assume r: "r \<in> set (sessions d)"
      and c: "(\<forall>v. mode = Some v \<and> v \<noteq> [] \<longrightarrow> s_mode r = v) \<and>
          (s_player r, s_mode r) \<notin> (\<lambda>g. (b_player g, b_mode g)) ` set res"
      and g: "g \<in> set res"
    from r c have rr: "r \<in> set rows" unfolding rows by simp
    then have k: "session_key r \<in> session_key ` set rows" by (rule imageI)
    from c have out: "session_key r \<notin> board_key ` set res" unfolding bk sk by simp
    from props(5) k out g have le: "Max (scores_of rows (session_key r)) \<le> best_score g"
      by blast
    have "total_score r \<in> scores_of rows (session_key r)"
      using rr by (auto simp: scores_of_def)
    then have "total_score r \<le> Max (scores_of rows (session_key r))"
      using finite_scores_of[of rows "session_key r"] by (rule_tac Max_ge)
    with le show "total_score r \<le> best_score g" by simp
  qed
qed

lemma board_limit_default: "board_limit None = Num 10"
  by (simp add: board_limit_def clamp_param parse_examples)

lemma board_example:
  assumes mm: "m = ''carreras'' \<or> m = ''futbol''"
    and nf: "\<not> fails"
    and tbl: "(\<lambda>r. (s_player r, s_mode r, total_score r)) ` set (sessions d)
              = {(''A'', m, 10), (''A'', m, 20), (''B'', m, 15)}"
  shows "get_leaderboard fails None (Some m) d =
           Some [\<lparr>b_player = ''A'', b_mode = m, best_score = 20\<rparr>,
                 \<lparr>b_player = ''B'', b_mode = m, best_score = 15\<rparr>]"
proof -
  define rows where "rows = board_rows (Some m) d"
  from mm have m: "m \<noteq> []" and pm: "pg_text m" by (auto simp: pg_text_def)
  from nf pm have "get_leaderboard fails None (Some m) d \<noteq> None"
    using leaderboard_answered[of fails None "Some m" d] by blast
  then obtain res where r: "get_leaderboard fails None (Some m) d = Some res" by blast
  have mem: "s_mode r = m \<and>
      (s_player r = ''A'' \<and> (total_score r = 10 \<or> total_score r = 20) \<or>
       s_player r = ''B'' \<and> total_score r = 15)"
    if "r \<in> set (sessions d)" for r
  proof -
    from that have "(s_player r, s_mode r, total_score r)
        \<in> (\<lambda>r. (s_player r, s_mode r, total_score r)) ` set (sessions d)"
      by (rule imageI)
    then have "(s_player r, s_mode r, total_score r)
        \<in> {(''A'', m, 10), (''A'', m, 20), (''B'', m, 15)}"
      unfolding tbl .
    then show ?thesis by simp blast
  qed
  have rows: "set rows = set (sessions d)"
    using m mem by (auto simp: rows_def board_rows_def str_param_def)
  have ex: "\<exists>r \<in> set (sessions d). s_player r = p \<and> s_mode r = m \<and> total_score r = sc"
    if "(p, m, sc) \<in> {(''A'', m, 10), (''A'', m, 20), (''B'', m, 15)}" for p sc
  proof -
    from that have "(p, m, sc) \<in> (\<lambda>r. (s_player r, s_mode r, total_score r)) ` set (sessions d)"
      unfolding tbl .
    then obtain r where "r \<in> set (sessions d)" "(p, m, sc) = (s_player r, s_mode r, total_score r)"
      by (rule imageE)
    then show ?thesis by (intro bexI[of _ r]) simp_all
  qed
  from ex[of "''A''" 10] obtain ra1 where
    ra1: "ra1 \<in> set (sessions d)" "s_player ra1 = ''A''" "s_mode ra1 = m" "total_score ra1 = 10"
    by auto
  from ex[of "''A''" 20] obtain ra2 where
    ra2: "ra2 \<in> set (sessions d)" "s_player ra2 = ''A''" "s_mode ra2 = m" "total_score ra2 = 20"
    by auto
  from ex[of "''B''" 15] obtain rb where
    rb: "rb \<in> set (sessions d)" "s_player rb = ''B''" "s_mode rb = m" "total_score rb = 15"
    by auto
  have AB: "''A'' \<noteq> ''B''" by simp
  have keys: "session_key ` set rows = {(''A'', m), (''B'', m)}"
  proof (intro equalityI subsetI)
    fix k assume "k \<in> session_key ` set rows"
    then obtain r where "r \<in> set (sessions d)" "k = session_key r" unfolding rows by auto
    with mem[of r] show "k \<in> {(''A'', m), (''B'', m)}" by (auto simp: session_key_def)
  next
    fix k assume "k \<in> {(''A'', m), (''B'', m)}"
    then have "k = session_key ra1 \<or> k = session_key rb"
      using ra1 rb by (simp add: session_key_def)
    with ra1(1) rb(1) show "k \<in> session_key ` set rows" unfolding rows by blast
  qed
  have sa: "scores_of rows (''A'', m) = {10, 20}"
  proof (intro equalityI subsetI)
    fix x assume "x \<in> scores_of rows (''A'', m)"
    then obtain r where "r \<in> set (sessions d)" "session_key r = (''A'', m)" "x = total_score r"
      unfolding rows scores_of_def by auto
    with mem[of r] show "x \<in> {10, 20}" by (auto simp: session_key_def)
  next
    fix x :: rat assume "x \<in> {10, 20}"
    then have "x = total_score ra1 \<or> x = total_score ra2" using ra1 ra2 by simp
    moreover have "session_key ra1 = (''A'', m)" "session_key ra2 = (''A'', m)"
      using ra1 ra2 by (simp_all add: session_key_def)
    ultimately show "x \<in> scores_of rows (''A'', m)"
      using ra1(1) ra2(1) unfolding rows scores_of_def by blast
  qed
  have sb: "scores_of rows (''B'', m) = {15}"
  proof (intro equalityI subsetI)
    fix x assume "x \<in> scores_of rows (''B'', m)"
    then obtain r where "r \<in> set (sessions d)" "session_key r = (''B'', m)" "x = total_score r"
      unfolding rows scores_of_def by auto
    with mem[of r] show "x \<in> {15}" by (auto simp: session_key_def)
  next
    fix x :: rat assume "x \<in> {15}"
    then have "x = total_score rb" using rb by simp
    moreover have "session_key rb = (''B'', m)" using rb by (simp add: session_key_def)
    ultimately show "x \<in> scores_of rows (''B'', m)"
      using rb(1) unfolding rows scores_of_def by blast
  qed
  have ma: "Max (scores_of rows (''A'', m)) = 20" unfolding sa by simp
  have mb: "Max (scores_of rows (''B'', m)) = 15" unfolding sb by simp
  note props = leaderboard_props[OF r, folded rows_def]
  have "card {(''A'', m), (''B'', m)} = 2" by simp
  with props(4) keys have len: "length res = 2" by (simp add: board_limit_default)
  then obtain g1 g2 where res: "res = [g1, g2]"
    by (auto simp: length_Suc_conv numeral_2_eq_2)
  have shape: "b_mode g = m \<and> (b_player g = ''A'' \<and> best_score g = 20 \<or>
               b_player g = ''B'' \<and> best_score g = 15)" if "g \<in> set res" for g
  proof -
    from props(2) that have k: "board_key g \<in> {(''A'', m), (''B'', m)}"
      and b: "best_score g = Max (scores_of rows (board_key g))"
      using keys by auto
    from k have "board_key g = (''A'', m) \<or> board_key g = (''B'', m)" by simp
    then show ?thesis
    proof
      assume a: "board_key g = (''A'', m)"
      with b ma have "best_score g = 20" by simp
      with a show ?thesis by (simp add: board_key_def)
    next
      assume a: "board_key g = (''B'', m)"
      with b mb have "best_score g = 15" by simp
      with a show ?thesis by (simp add: board_key_def)
    qed
  qed
  from props(1) res have dk: "board_key g1 \<noteq> board_key g2" by simp
  from props(3) res have ord: "best_score g2 \<le> best_score g1" by simp
  have s1: "b_mode g1 = m \<and> (b_player g1 = ''A'' \<and> best_score g1 = 20 \<or>
               b_player g1 = ''B'' \<and> best_score g1 = 15)"
    and s2: "b_mode g2 = m \<and> (b_player g2 = ''A'' \<and> best_score g2 = 20 \<or>
               b_player g2 = ''B'' \<and> best_score g2 = 15)"
    using shape[of g1] shape[of g2] res by simp_all
  from s1 s2 dk ord
  have "b_player g1 = ''A'' \<and> best_score g1 = 20 \<and> b_player g2 = ''B'' \<and> best_score g2 = 15"
    by (auto simp: board_key_def)
  with s1 s2 have "g1 = \<lparr>b_player = ''A'', b_mode = m, best_score = 20\<rparr>"
    "g2 = \<lparr>b_player = ''B'', b_mode = m, best_score = 15\<rparr>"
    by (cases g1; simp)+
  with res r show ?thesis by simp
qed

lemma leaderboard_limit_1:
  "get_leaderboard fails (Some ''1'') mode d =
     map_option (take 1) (get_leaderboard fails None mode d)"
  by (simp add: get_leaderboard_def board_limit_def clamp_param parse_examples)

text \<open>
  Claim C8, amended. A leaderboard request is answered exactly when the query does not
  fail and the mode is a text value. An answer has at most one entry for each player and
  mode; each entry has the requested mode when a mode that is not empty is given,
  belongs to a player and mode of a stored session, and carries the maximum total score
  of the stored sessions of that player and mode; the entries are in descending order of
  best score; their number is the limit or, if smaller, the number of combinations of
  player and mode among the sessions of the requested mode; and no session of a
  combination left out scores more than a listed entry. The limit is 10 when the
  parameter is absent, not a number or zero, and otherwise the number raised to 1 and
  lowered to 100. When the stored sessions are A with 10 and 20 and B with 15, all in
  the mode \<^verbatim>\<open>carreras\<close> or all in the mode \<^verbatim>\<open>futbol\<close>, the request for that mode is
  answered with A with 20 followed by B with 15, and with \<^verbatim>\<open>limit=1\<close> with A with 20 alone.
\<close>

theorem leaderboard_ranking:
  "(get_leaderboard fails limit mode d \<noteq> None \<longleftrightarrow>
      \<not> fails \<and> (\<forall>v. mode = Some v \<longrightarrow> pg_text v)) \<and>
   (\<forall>res. get_leaderboard fails limit mode d = Some res \<longrightarrow>
      distinct (map (\<lambda>g. (b_player g, b_mode g)) res) \<and>
      (\<forall>g \<in> set res.
          (\<forall>v. mode = Some v \<and> v \<noteq> [] \<longrightarrow> b_mode g = v) \<and>
          (\<exists>r \<in> set (sessions d). s_player r = b_player g \<and> s_mode r = b_mode g) \<and>
          best_score g = Max (total_score `
             {r \<in> set (sessions d). s_player r = b_player g \<and> s_mode r = b_mode g})) \<and>
      sorted_wrt (\<lambda>a b. best_score a \<ge> best_score b) res \<and>
      (\<exists>n. length res = min (nat n) (card ((\<lambda>r. (s_player r, s_mode r)) `
              {r \<in> set (sessions d). \<forall>v. mode = Some v \<and> v \<noteq> [] \<longrightarrow> s_mode r = v})) \<and>
           1 \<le> n \<and> n \<le> 100 \<and>
           (limit = None \<or>
            (\<exists>str. limit = Some str \<and> (parseInt str = NaN \<or> parseInt str = Num 0))
              \<longrightarrow> n = 10) \<and>
           (\<forall>str k. limit = Some str \<and> parseInt str = Num k \<and> k \<noteq> 0
              \<longrightarrow> n = min 100 (max 1 k)) \<and>
           (\<forall>str. limit = Some str \<and> parseInt str = Infinity \<longrightarrow> n = 100) \<and>
           (\<forall>str. limit = Some str \<and> parseInt str = Minus_Infinity \<longrightarrow> n = 1)) \<and>
      (\<forall>r \<in> set (sessions d).
          (\<forall>v. mode = Some v \<and> v \<noteq> [] \<longrightarrow> s_mode r = v) \<and>
          (s_player r, s_mode r) \<notin> (\<lambda>g. (b_player g, b_mode g)) ` set res \<longrightarrow>
          (\<forall>g \<in> set res. total_score r \<le> best_score g))) \<and>
   ((m = ''carreras'' \<or> m = ''futbol'') \<and> \<not> fails \<and>
    (\<lambda>r. (s_player r, s_mode r, total_score r)) ` set (sessions d)
      = {(''A'', m, 10), (''A'', m, 20), (''B'', m, 15)} \<longrightarrow>
    get_leaderboard fails None (Some m) d =
      Some [\<lparr>b_player = ''A'', b_mode = m, best_score = 20\<rparr>,
            \<lparr>b_player = ''B'', b_mode = m, best_score = 15\<rparr>] \<and>
    get_leaderboard fails (Some ''1'') (Some m) d =
      Some [\<lparr>b_player = ''A'', b_mode = m, best_score = 20\<rparr>])"
proof (intro conjI allI impI)
  show "get_leaderboard fails limit mode d \<noteq> None \<longleftrightarrow>
      \<not> fails \<and> (\<forall>v. mode = Some v \<longrightarrow> pg_text v)"
    by (rule leaderboard_answered)
next
  assume "(m = ''carreras'' \<or> m = ''futbol'') \<and> \<not> fails \<and>
    (\<lambda>r. (s_player r, s_mode r, total_score r)) ` set (sessions d)
      = {(''A'', m, 10), (''A'', m, 20), (''B'', m, 15)}"
  then have ex: "get_leaderboard fails None (Some m) d =
      Some [\<lparr>b_player = ''A'', b_mode = m, best_score = 20\<rparr>,
            \<lparr>b_player = ''B'', b_mode = m, best_score = 15\<rparr>]"
    by (intro board_example) simp_all
  then show "get_leaderboard fails None (Some m) d =
      Some [\<lparr>b_player = ''A'', b_mode = m, best_score = 20\<rparr>,
            \<lparr>b_player = ''B'', b_mode = m, best_score = 15\<rparr>]" .
  from ex show "get_leaderboard fails (Some ''1'') (Some m) d =
      Some [\<lparr>b_player = ''A'', b_mode = m, best_score = 20\<rparr>]"
    by (simp add: leaderboard_limit_1)
next
  fix res assume r: "get_leaderboard fails limit mode d = Some res"
  note props = leaderboard_request_props[OF r]
  show "distinct (map (\<lambda>g. (b_player g, b_mode g)) res)" by (rule props(1))
  show "\<forall>g \<in> set res.
          (\<forall>v. mode = Some v \<and> v \<noteq> [] \<longrightarrow> b_mode g = v) \<and>
          (\<exists>r \<in> set (sessions d). s_player r = b_player g \<and> s_mode r = b_mode g) \<and>
          best_score g = Max (total_score `
             {r \<in> set (sessions d). s_player r = b_player g \<and> s_mode r = b_mode g})"
    by (rule props(2))
  show "sorted_wrt (\<lambda>a b. best_score a \<ge> best_score b) res" by (rule props(3))
  show "\<exists>n. length res = min (nat n) (card ((\<lambda>r. (s_player r, s_mode r)) `
              {r \<in> set (sessions d). \<forall>v. mode = Some v \<and> v \<noteq> [] \<longrightarrow> s_mode r = v})) \<and>
           1 \<le> n \<and> n \<le> 100 \<and>
           (limit = None \<or>
            (\<exists>str. limit = Some str \<and> (parseInt str = NaN \<or> parseInt str = Num 0))
              \<longrightarrow> n = 10) \<and>
           (\<forall>str k. limit = Some str \<and> parseInt str = Num k \<and> k \<noteq> 0
              \<longrightarrow> n = min 100 (max 1 k)) \<and>
           (\<forall>str. limit = Some str \<and> parseInt str = Infinity \<longrightarrow> n = 100) \<and>
           (\<forall>str. limit = Some str \<and> parseInt str = Minus_Infinity \<longrightarrow> n = 1)"
    by (rule props(4))
  show "\<forall>r \<in> set (sessions d).
          (\<forall>v. mode = Some v \<and> v \<noteq> [] \<longrightarrow> s_mode r = v) \<and>
          (s_player r, s_mode r) \<notin> (\<lambda>g. (b_player g, b_mode g)) ` set res \<longrightarrow>
          (\<forall>g \<in> set res. total_score r \<le> best_score g)"
    by (rule props(5))
qed

lemmas board_defs = get_leaderboard_def board_limit_def clamp_param parse_examples board_rows_def
  str_param_def group_by_player_mode_def mixed_db_def board_db_def board_session_def
  pg_param_def pg_text_def

theorem leaderboard_ranking_witness:
  "(get_leaderboard False None (Some ''carreras'') (board_db ''carreras'') =
     Some [\<lparr>b_player = ''A'', b_mode = ''carreras'', best_score = 20\<rparr>,
           \<lparr>b_player = ''B'', b_mode = ''carreras'', best_score = 15\<rparr>] \<and>
    get_leaderboard False (Some ''1'') (Some ''carreras'') (board_db ''carreras'') =
     Some [\<lparr>b_player = ''A'', b_mode = ''carreras'', best_score = 20\<rparr>]) \<and>
   get_leaderboard False None (Some ''carreras'') mixed_db =
     Some [\<lparr>b_player = ''A'', b_mode = ''carreras'', best_score = 20\<rparr>,
           \<lparr>b_player = ''B'', b_mode = ''carreras'', best_score = 15\<rparr>] \<and>
   get_leaderboard False (Some ''1'') None mixed_db =
     Some [\<lparr>b_player = ''C'', b_mode = ''futbol'', best_score = 30\<rparr>]"
proof -
  have b: "(''carreras'' = ''carreras'' \<or> ''carreras'' = ''futbol'') \<and> \<not> False \<and>
      (\<lambda>r. (s_player r, s_mode r, total_score r)) ` set (sessions (board_db ''carreras''))
      = {(''A'', ''carreras'', 10), (''A'', ''carreras'', 20), (''B'', ''carreras'', 15)}"
    by (auto simp: board_db_def board_session_def)
  note first = leaderboard_ranking[of False None "Some ''carreras''" "board_db ''carreras''"
      "''carreras''", THEN conjunct2, THEN conjunct2, THEN mp, OF b]
  have "get_leaderboard False None (Some ''carreras'') mixed_db =
     Some [\<lparr>b_player = ''A'', b_mode = ''carreras'', best_score = 20\<rparr>,
           \<lparr>b_player = ''B'', b_mode = ''carreras'', best_score = 15\<rparr>]"
    by (simp add: board_defs)
  moreover have "get_leaderboard False (Some ''1'') None mixed_db =
     Some [\<lparr>b_player = ''C'', b_mode = ''futbol'', best_score = 30\<rparr>]"
    by (simp add: board_defs)
  ultimately show ?thesis using first by blast
qed

text \<open>
  Claim C8 as stated: a session of mode \<^verbatim>\<open>racing\<close> is refused by the upsert, so no stored
  session has that mode and the request for \<^verbatim>\<open>mode=racing\<close> is answered with the empty
  list; and a request whose mode is no text value, or whose query fails, gets no list.
\<close>

theorem racing_board_counterexample:
  "fst (post_sessions no_faults 9 (mk_body ''s_a1'' ''A'' ''racing'' 0 10 []) empty_conn)
     = Bad_Request_Schema [''mode''] \<and>
   get_leaderboard False None (Some ''racing'') mixed_db = Some [] \<and>
   get_leaderboard False None (Some [CHR 0x00]) mixed_db = None \<and>
   get_leaderboard True None None mixed_db = None"
proof -
  have "SessionUpsertSchema (mk_body ''s_a1'' ''A'' ''racing'' 0 10 []) = Inl [''mode'']"
    by (simp add: schema_defs)
  then have "fst (post_sessions no_faults 9 (mk_body ''s_a1'' ''A'' ''racing'' 0 10 []) empty_conn)
     = Bad_Request_Schema [''mode'']"
    by (simp add: post_sessions_def)
  moreover have "get_leaderboard False None (Some ''racing'') mixed_db = Some []"
    by (simp add: board_defs)
  moreover have "get_leaderboard False None (Some [CHR 0x00]) mixed_db = None"
    by (simp add: board_defs)
  moreover have "get_leaderboard True None None mixed_db = None"
    by (simp add: board_defs)
  ultimately show ?thesis by (intro conjI)
qed

end
